theory Spec2Isabelle
  imports Complex_Main "HOL-Library.AList" "HOL-Library.Multiset"
begin

section \<open>JSON documents as Python sees them\<close>

text \<open>
  \<^verbatim>\<open>update_strongs_in_verses.py\<close> works on what \<^verbatim>\<open>json.load\<close> returns: trees of
  \<^verbatim>\<open>None\<close>, \<^verbatim>\<open>bool\<close>, \<^verbatim>\<open>int\<close>, \<^verbatim>\<open>float\<close>, \<^verbatim>\<open>str\<close>, \<^verbatim>\<open>list\<close> and \<^verbatim>\<open>dict\<close> with string keys.
  A dict is an association list in insertion order (a Python dict keeps that order; a
  well-formed one has distinct keys, and lookup and assignment below act on the first
  entry of a key). The two documents are loaded by two separate calls of
  \<^verbatim>\<open>json.load\<close>, so they are trees that share no mutable object; the in-place
  assignments of the source are therefore modelled by rebuilding the value.

  A float is a real number or one of the three values that \<^verbatim>\<open>json.load\<close> returns for the
  literals \<^verbatim>\<open>Infinity\<close>, \<^verbatim>\<open>-Infinity\<close> and \<^verbatim>\<open>NaN\<close>. The operations of the merge on a
  finite float (truth value, hash, comparison with an int or a float) are exact, so its
  real value stands for it.
\<close>

datatype pyfloat = FNum real | FPosInf | FNegInf | FNaN

datatype json =
    JNull
  | JBool bool
  | JInt int
  | JFloat pyfloat
  | JStr string
  | JArr "json list"
  | JObj "(string \<times> json) list"

text \<open>The exceptions the merge can run into on a document of the wrong shape.\<close>

datatype error = TypeError | AttributeError | KeyError

text \<open>
  What a Python \<^verbatim>\<open>set\<close> or dict key lookup sees of a hashable value: \<^verbatim>\<open>True\<close>, \<^verbatim>\<open>1\<close> and
  \<^verbatim>\<open>1.0\<close> hash alike and compare equal, so they are one key. \<^verbatim>\<open>json.load\<close> returns
  the one float object \<^verbatim>\<open>json.decoder.NaN\<close> for every literal \<^verbatim>\<open>NaN\<close>, and a set or dict
  tests \<^verbatim>\<open>is\<close> before \<^verbatim>\<open>==\<close>, so \<^verbatim>\<open>NaN\<close> is one key too.
\<close>

datatype hkey = HNone | HNum pyfloat | HStr string

type_synonym dict = "(string \<times> json) list"

fun py_truthy :: "json \<Rightarrow> bool" where
  "py_truthy JNull = False"
| "py_truthy (JBool b) = b"
| "py_truthy (JInt i) = (i \<noteq> 0)"
| "py_truthy (JFloat f) = (f \<noteq> FNum 0)"
| "py_truthy (JStr s) = (s \<noteq> [])"
| "py_truthy (JArr xs) = (xs \<noteq> [])"
| "py_truthy (JObj kvs) = (kvs \<noteq> [])"

fun py_num :: "json \<Rightarrow> pyfloat option" where
  "py_num (JBool b) = Some (FNum (if b then 1 else 0))"
| "py_num (JInt i) = Some (FNum (of_int i))"
| "py_num (JFloat f) = Some f"
| "py_num _ = None"

text \<open>\<^verbatim>\<open>hash(x)\<close>: lists and dicts are unhashable.\<close>

fun py_hash :: "json \<Rightarrow> error + hkey" where
  "py_hash JNull = Inr HNone"
| "py_hash (JBool b) = Inr (HNum (FNum (if b then 1 else 0)))"
| "py_hash (JInt i) = Inr (HNum (FNum (of_int i)))"
| "py_hash (JFloat f) = Inr (HNum f)"
| "py_hash (JStr s) = Inr (HStr s)"
| "py_hash (JArr xs) = Inl TypeError"
| "py_hash (JObj kvs) = Inl TypeError"

text \<open>
  \<^verbatim>\<open>x is y or x == y\<close>, the test that the comparison of two lists or two dicts applies to
  their elements. It differs from \<^verbatim>\<open>==\<close> on \<^verbatim>\<open>NaN\<close> only: every \<^verbatim>\<open>NaN\<close> of a loaded
  document is the same object, so inside a list or a dict \<^verbatim>\<open>NaN\<close> matches \<^verbatim>\<open>NaN\<close>.
\<close>

function py_same :: "json \<Rightarrow> json \<Rightarrow> bool" where
  "py_same JNull y = (y = JNull)"
| "py_same (JBool b) y = (py_num y = Some (FNum (if b then 1 else 0)))"
| "py_same (JInt i) y = (py_num y = Some (FNum (of_int i)))"
| "py_same (JFloat f) y = (py_num y = Some f)"
| "py_same (JStr s) y = (y = JStr s)"
| "py_same (JArr xs) y = (case y of JArr ys \<Rightarrow> list_all2 py_same xs ys | _ \<Rightarrow> False)"
| "py_same (JObj a) y = (case y of
      JObj b \<Rightarrow>
        set (map fst a) = set (map fst b) \<and>
        (\<forall>k \<in> set (map fst a).
           case map_of a k of
             None \<Rightarrow> False
           | Some v \<Rightarrow> (case map_of b k of None \<Rightarrow> False | Some w \<Rightarrow> py_same v w))
    | _ \<Rightarrow> False)"
  by pat_completeness auto

termination py_same
proof -
  have value_smaller: "size v < Suc (size_list (size_prod (\<lambda>_. 0) size) a)"
    if "map_of a k = Some v" for a :: dict and k v
    using that by (induction a) (auto split: if_splits)
  have element_smaller: "size x < Suc (size_list size xs)"
    if "x \<in> set xs" for x :: json and xs
    using that by (induction xs) auto
  show ?thesis
    by (relation "measure (\<lambda>(x, y). size x)") (auto simp: value_smaller element_smaller)
qed

text \<open>
  \<^verbatim>\<open>x == y\<close> on JSON values (so \<^verbatim>\<open>old_def != new_def\<close> is its negation): \<^verbatim>\<open>NaN\<close> is
  equal to nothing, itself included.
\<close>

definition py_eq :: "json \<Rightarrow> json \<Rightarrow> bool" where
  "py_eq x y = (py_same x y \<and> x \<noteq> JFloat FNaN)"

text \<open>\<^verbatim>\<open>sub in s\<close> for two strings.\<close>

fun str_contains :: "string \<Rightarrow> string \<Rightarrow> bool" where
  "str_contains sub [] = (sub = [])"
| "str_contains sub (c # cs) = (take (length sub) (c # cs) = sub \<or> str_contains sub cs)"

text \<open>\<^verbatim>\<open>key in container\<close> for a string key.\<close>

fun py_contains :: "string \<Rightarrow> json \<Rightarrow> error + bool" where
  "py_contains k (JObj kvs) = Inr (k \<in> set (map fst kvs))"
| "py_contains k (JArr xs) = Inr (JStr k \<in> set xs)"
| "py_contains k (JStr s) = Inr (str_contains k s)"
| "py_contains k _ = Inl TypeError"

text \<open>\<^verbatim>\<open>container[key]\<close> for a string key.\<close>

fun py_getitem :: "json \<Rightarrow> string \<Rightarrow> error + json" where
  "py_getitem (JObj kvs) k = (case map_of kvs k of None \<Rightarrow> Inl KeyError | Some v \<Rightarrow> Inr v)"
| "py_getitem _ k = Inl TypeError"

text \<open>The items a \<^verbatim>\<open>for\<close> loop draws: a dict yields its keys, a string its characters.\<close>

fun py_iter :: "json \<Rightarrow> error + json list" where
  "py_iter (JArr xs) = Inr xs"
| "py_iter (JObj kvs) = Inr (map (\<lambda>kv. JStr (fst kv)) kvs)"
| "py_iter (JStr s) = Inr (map (\<lambda>c. JStr [c]) s)"
| "py_iter _ = Inl TypeError"

text \<open>\<^verbatim>\<open>x.get(key, default)\<close>: only a dict has the method.\<close>

fun py_get :: "json \<Rightarrow> string \<Rightarrow> json \<Rightarrow> error + json" where
  "py_get (JObj kvs) k d = Inr (case map_of kvs k of None \<Rightarrow> d | Some v \<Rightarrow> v)"
| "py_get _ k d = Inl AttributeError"

text \<open>
  \<^verbatim>\<open>x[key] = v\<close> for a string key: an existing key keeps its place, a new one goes to
  the end.
\<close>

fun py_setitem :: "json \<Rightarrow> string \<Rightarrow> json \<Rightarrow> error + json" where
  "py_setitem (JObj kvs) k v = Inr (JObj (AList.update k v kvs))"
| "py_setitem _ k v = Inl TypeError"

text \<open>
  Lookup in a dict whose keys are strings (every dict loaded from JSON): a key that is
  not a string is never found.
\<close>

fun dict_lookup :: "dict \<Rightarrow> hkey \<Rightarrow> json option" where
  "dict_lookup d (HStr s) = map_of d s"
| "dict_lookup d _ = None"

section \<open>The merge: \<^verbatim>\<open>update_strong_definitions\<close>\<close>

text \<open>
  The variables of \<^verbatim>\<open>update_strong_definitions\<close> that live across the iterations of its
  two loops: the \<^verbatim>\<open>strongs_definitions\<close> argument and the three aggregates. The verse
  collection is the structure the loops walk and rebuild.
\<close>

record frame =
  strongs_definitions :: dict
  updated_count :: nat
  not_found_count :: nat
  missing_strongs :: "hkey set"

text \<open>The body of the inner loop (source lines 44 to 56) for one \<^verbatim>\<open>token\<close>.\<close>

definition process_token :: "json \<Rightarrow> frame \<Rightarrow> error + (json \<times> frame)" where
  "process_token token fr =
    (case py_get token ''strongs'' JNull of
       Inl e \<Rightarrow> Inl e
     | Inr strongs_num \<Rightarrow>
         if \<not> py_truthy strongs_num then Inr (token, fr)
         else
           (case py_hash strongs_num of
              Inl e \<Rightarrow> Inl e
            | Inr k \<Rightarrow>
                (case dict_lookup (strongs_definitions fr) k of
                   Some new_def \<Rightarrow>
                     (case py_get token ''strong_def'' (JStr []) of
                        Inl e \<Rightarrow> Inl e
                      | Inr old_def \<Rightarrow>
                          if \<not> py_eq old_def new_def then
                            (case py_setitem token ''strong_def'' new_def of
                               Inl e \<Rightarrow> Inl e
                             | Inr token' \<Rightarrow>
                                 Inr (token', fr\<lparr>updated_count := updated_count fr + 1\<rparr>))
                          else Inr (token, fr))
                 | None \<Rightarrow>
                     Inr (token,
                          fr\<lparr>not_found_count := not_found_count fr + 1,
                             missing_strongs := insert k (missing_strongs fr)\<rparr>))))"

text \<open>\<^verbatim>\<open>for token in verse_data['tokens']\<close>, stopping at the first exception.\<close>

fun tokens_loop :: "json list \<Rightarrow> frame \<Rightarrow> error + (json list \<times> frame)" where
  "tokens_loop [] fr = Inr ([], fr)"
| "tokens_loop (token # rest) fr =
    (case process_token token fr of
       Inl e \<Rightarrow> Inl e
     | Inr (token', fr') \<Rightarrow>
         (case tokens_loop rest fr' of
            Inl e \<Rightarrow> Inl e
          | Inr (rest', fr'') \<Rightarrow> Inr (token' # rest', fr'')))"

text \<open>
  The token dicts are mutated inside the list \<^verbatim>\<open>verse_data['tokens']\<close>. When the loop
  ran over the keys of a dict or the characters of a string instead, its items were
  fresh strings and the verse record holds nothing of them.
\<close>

fun write_back :: "json \<Rightarrow> json \<Rightarrow> json list \<Rightarrow> json" where
  "write_back (JObj kvs) (JArr ts) ts' = JObj (AList.update ''tokens'' (JArr ts') kvs)"
| "write_back verse_data tokens ts' = verse_data"

text \<open>The body of the outer loop (source lines 40 to 56) for one \<^verbatim>\<open>verse_data\<close>.\<close>

definition process_verse :: "json \<Rightarrow> frame \<Rightarrow> error + (json \<times> frame)" where
  "process_verse verse_data fr =
    (case py_contains ''tokens'' verse_data of
       Inl e \<Rightarrow> Inl e
     | Inr present \<Rightarrow>
         if \<not> present then Inr (verse_data, fr)
         else
           (case py_getitem verse_data ''tokens'' of
              Inl e \<Rightarrow> Inl e
            | Inr tokens \<Rightarrow>
                (case py_iter tokens of
                   Inl e \<Rightarrow> Inl e
                 | Inr items \<Rightarrow>
                     (case tokens_loop items fr of
                        Inl e \<Rightarrow> Inl e
                      | Inr (items', fr') \<Rightarrow>
                          Inr (write_back verse_data tokens items', fr')))))"

text \<open>\<^verbatim>\<open>for verse_ref, verse_data in verses.items()\<close>.\<close>

fun verses_loop :: "dict \<Rightarrow> frame \<Rightarrow> error + (dict \<times> frame)" where
  "verses_loop [] fr = Inr ([], fr)"
| "verses_loop ((verse_ref, verse_data) # rest) fr =
    (case process_verse verse_data fr of
       Inl e \<Rightarrow> Inl e
     | Inr (verse_data', fr') \<Rightarrow>
         (case verses_loop rest fr' of
            Inl e \<Rightarrow> Inl e
          | Inr (rest', fr'') \<Rightarrow> Inr ((verse_ref, verse_data') # rest', fr'')))"

text \<open>The frame at entry (source lines 35 to 37) and the run of the outer loop from it.\<close>

definition initial_frame :: "dict \<Rightarrow> frame" where
  "initial_frame defs =
     \<lparr>strongs_definitions = defs, updated_count = 0, not_found_count = 0,
      missing_strongs = {}\<rparr>"

definition merge_run :: "dict \<Rightarrow> dict \<Rightarrow> error + (dict \<times> frame)" where
  "merge_run verses defs = verses_loop verses (initial_frame defs)"

text \<open>The function as its caller sees it: the tuple of source line 58, or the exception.\<close>

definition update_strong_definitions ::
  "dict \<Rightarrow> dict \<Rightarrow> error + (dict \<times> nat \<times> nat \<times> hkey set)" where
  "update_strong_definitions verses defs =
    (case merge_run verses defs of
       Inl e \<Rightarrow> Inl e
     | Inr (verses', fr) \<Rightarrow>
         Inr (verses', updated_count fr, not_found_count fr, missing_strongs fr))"

section \<open>Reading a verse collection\<close>

text \<open>The token sequence of a verse record, empty when the record has none.\<close>

definition verse_tokens :: "json \<Rightarrow> json list" where
  "verse_tokens verse_data =
    (case verse_data of
       JObj kvs \<Rightarrow> (case map_of kvs ''tokens'' of Some (JArr ts) \<Rightarrow> ts | _ \<Rightarrow> [])
     | _ \<Rightarrow> [])"

text \<open>All tokens of a collection, in the order the two loops visit them.\<close>

definition all_tokens :: "dict \<Rightarrow> json list" where
  "all_tokens verses = concat (map (\<lambda>kv. verse_tokens (snd kv)) verses)"

section \<open>What one token and one verse record contribute\<close>

text \<open>
  The loop body changes the frame only by adding to the two counters and to the set.
  \<open>token_effect\<close> runs the body from the frame at entry; its components are the new
  token, the increments of the two counters and the keys added to the set.
\<close>

definition add_effect :: "frame \<Rightarrow> nat \<Rightarrow> nat \<Rightarrow> hkey set \<Rightarrow> frame" where
  "add_effect fr du dn dm =
     fr\<lparr>updated_count := updated_count fr + du,
        not_found_count := not_found_count fr + dn,
        missing_strongs := missing_strongs fr \<union> dm\<rparr>"

definition token_effect :: "dict \<Rightarrow> json \<Rightarrow> error + (json \<times> nat \<times> nat \<times> hkey set)" where
  "token_effect defs token =
    (case process_token token (initial_frame defs) of
       Inl e \<Rightarrow> Inl e
     | Inr (token', fr) \<Rightarrow>
         Inr (token', updated_count fr, not_found_count fr, missing_strongs fr))"

definition tok_ok :: "dict \<Rightarrow> json \<Rightarrow> bool" where
  "tok_ok defs t = (case token_effect defs t of Inl e \<Rightarrow> False | Inr r \<Rightarrow> True)"

definition tok_new :: "dict \<Rightarrow> json \<Rightarrow> json" where
  "tok_new defs t = (case token_effect defs t of Inl e \<Rightarrow> t | Inr (t', du, dn, dm) \<Rightarrow> t')"

definition tok_du :: "dict \<Rightarrow> json \<Rightarrow> nat" where
  "tok_du defs t = (case token_effect defs t of Inl e \<Rightarrow> 0 | Inr (t', du, dn, dm) \<Rightarrow> du)"

definition tok_dn :: "dict \<Rightarrow> json \<Rightarrow> nat" where
  "tok_dn defs t = (case token_effect defs t of Inl e \<Rightarrow> 0 | Inr (t', du, dn, dm) \<Rightarrow> dn)"

definition tok_dm :: "dict \<Rightarrow> json \<Rightarrow> hkey set" where
  "tok_dm defs t = (case token_effect defs t of Inl e \<Rightarrow> {} | Inr (t', du, dn, dm) \<Rightarrow> dm)"

definition sum_du :: "dict \<Rightarrow> json list \<Rightarrow> nat" where
  "sum_du defs ts = sum_list (map (tok_du defs) ts)"

definition sum_dn :: "dict \<Rightarrow> json list \<Rightarrow> nat" where
  "sum_dn defs ts = sum_list (map (tok_dn defs) ts)"

definition all_dm :: "dict \<Rightarrow> json list \<Rightarrow> hkey set" where
  "all_dm defs ts = (\<Union>t \<in> set ts. tok_dm defs t)"

text \<open>
  The verse records on which the outer loop body raises nothing, and what it makes of
  a verse record.
\<close>

definition verse_ok :: "dict \<Rightarrow> json \<Rightarrow> bool" where
  "verse_ok defs verse_data =
    (case verse_data of
       JObj kvs \<Rightarrow>
         (case map_of kvs ''tokens'' of
            None \<Rightarrow> True
          | Some (JArr ts) \<Rightarrow> list_all (tok_ok defs) ts
          | Some (JObj a) \<Rightarrow> a = []
          | Some (JStr s) \<Rightarrow> s = []
          | Some _ \<Rightarrow> False)
     | JArr xs \<Rightarrow> JStr ''tokens'' \<notin> set xs
     | JStr s \<Rightarrow> \<not> str_contains ''tokens'' s
     | _ \<Rightarrow> False)"

definition verse_new :: "dict \<Rightarrow> json \<Rightarrow> json" where
  "verse_new defs verse_data =
    (case verse_data of
       JObj kvs \<Rightarrow>
         (case map_of kvs ''tokens'' of
            Some (JArr ts) \<Rightarrow> JObj (AList.update ''tokens'' (JArr (map (tok_new defs) ts)) kvs)
          | _ \<Rightarrow> verse_data)
     | _ \<Rightarrow> verse_data)"

definition verses_ok :: "dict \<Rightarrow> dict \<Rightarrow> bool" where
  "verses_ok defs verses = list_all (\<lambda>kv. verse_ok defs (snd kv)) verses"

definition verses_new :: "dict \<Rightarrow> dict \<Rightarrow> dict" where
  "verses_new defs verses = map (\<lambda>kv. (fst kv, verse_new defs (snd kv))) verses"

text \<open>
  The key under which a token is looked up: the hash key of its truthy \<^verbatim>\<open>strongs\<close>
  value. \<open>absent_key\<close> holds of the tokens whose key has no entry in the definitions.
\<close>

definition token_key :: "json \<Rightarrow> hkey option" where
  "token_key token =
    (case py_get token ''strongs'' JNull of
       Inl e \<Rightarrow> None
     | Inr strongs_num \<Rightarrow>
         if py_truthy strongs_num
         then (case py_hash strongs_num of Inl e \<Rightarrow> None | Inr k \<Rightarrow> Some k)
         else None)"

definition absent_key :: "dict \<Rightarrow> json \<Rightarrow> bool" where
  "absent_key defs token =
    (case token_key token of None \<Rightarrow> False | Some k \<Rightarrow> dict_lookup defs k = None)"

text \<open>The tokens whose key selects a definition that is \<^verbatim>\<open>NaN\<close>.\<close>

definition selects_nan :: "dict \<Rightarrow> json \<Rightarrow> bool" where
  "selects_nan defs token =
    (case token_key token of
       None \<Rightarrow> False
     | Some k \<Rightarrow> dict_lookup defs k = Some (JFloat FNaN))"


section \<open>Documents of the expected shape\<close>

text \<open>
  A token of the expected shape is a dict whose \<^verbatim>\<open>strongs\<close> value is hashable or falsy;
  a verse record of the expected shape is a dict whose \<^verbatim>\<open>tokens\<close> field, if there is
  one, is a list of such tokens.
\<close>

definition token_shaped :: "json \<Rightarrow> bool" where
  "token_shaped token =
    (case token of
       JObj a \<Rightarrow>
         (case map_of a ''strongs'' of
            Some (JArr xs) \<Rightarrow> xs = []
          | Some (JObj kvs) \<Rightarrow> kvs = []
          | _ \<Rightarrow> True)
     | _ \<Rightarrow> False)"

definition verse_shaped :: "json \<Rightarrow> bool" where
  "verse_shaped verse_data =
    (case verse_data of
       JObj kvs \<Rightarrow>
         (case map_of kvs ''tokens'' of
            None \<Rightarrow> True
          | Some (JArr ts) \<Rightarrow> list_all token_shaped ts
          | _ \<Rightarrow> False)
     | _ \<Rightarrow> False)"

section \<open>Relations between a collection and another\<close>

text \<open>
  What the merge may change. Two tokens are in \<open>token_frame\<close> when they are dicts with
  the same entries, in the same order, apart from \<^verbatim>\<open>strong_def\<close>, whose key, if new, is
  the last one. Two verse records are in \<open>verse_frame\<close> when they are the same, or are
  dicts with the same keys in the same order, the same entries apart from \<^verbatim>\<open>tokens\<close>, and
  token lists of the same length whose tokens are in \<open>token_frame\<close> position by position.
\<close>

definition token_frame :: "json \<Rightarrow> json \<Rightarrow> bool" where
  "token_frame t t' =
    (case t of
       JObj a \<Rightarrow>
         (case t' of
            JObj a' \<Rightarrow>
              filter (\<lambda>kv. fst kv \<noteq> ''strong_def'') a' =
                filter (\<lambda>kv. fst kv \<noteq> ''strong_def'') a \<and>
              (map fst a' = map fst a \<or> map fst a' = map fst a @ [''strong_def''])
          | _ \<Rightarrow> False)
     | _ \<Rightarrow> t' = t)"

definition verse_frame :: "json \<Rightarrow> json \<Rightarrow> bool" where
  "verse_frame vd vd' =
    (vd' = vd \<or>
     (case vd of
        JObj kvs \<Rightarrow>
          (case vd' of
             JObj kvs' \<Rightarrow>
               map fst kvs' = map fst kvs \<and>
               filter (\<lambda>kv. fst kv \<noteq> ''tokens'') kvs' =
                 filter (\<lambda>kv. fst kv \<noteq> ''tokens'') kvs \<and>
               (case map_of kvs ''tokens'' of
                  Some (JArr ts) \<Rightarrow>
                    (case map_of kvs' ''tokens'' of
                       Some (JArr ts') \<Rightarrow> list_all2 token_frame ts ts'
                     | _ \<Rightarrow> False)
                | _ \<Rightarrow> False)
           | _ \<Rightarrow> False)
      | _ \<Rightarrow> False))"

definition collection_frame :: "dict \<Rightarrow> dict \<Rightarrow> bool" where
  "collection_frame verses verses' =
     list_all2 (\<lambda>kv kv'. fst kv' = fst kv \<and> verse_frame (snd kv) (snd kv')) verses verses'"

text \<open>
  Visiting in another order. \<open>tokens_reordered\<close> relates a verse record to the same
  record with its token list permuted; \<open>entries_reordered\<close> relates two collections
  entry by entry, with the same verse keys; a collection in another verse order is one
  with the same multiset of entries.
\<close>

definition tokens_reordered :: "json \<Rightarrow> json \<Rightarrow> bool" where
  "tokens_reordered vd vd2 =
    (vd2 = vd \<or>
     (case vd of
        JObj kvs \<Rightarrow>
          (case map_of kvs ''tokens'' of
             Some (JArr ts) \<Rightarrow>
               mset (verse_tokens vd2) = mset ts \<and>
               vd2 = JObj (AList.update ''tokens'' (JArr (verse_tokens vd2)) kvs)
           | _ \<Rightarrow> False)
      | _ \<Rightarrow> False))"

definition entries_reordered :: "dict \<Rightarrow> dict \<Rightarrow> bool" where
  "entries_reordered verses ws =
     list_all2 (\<lambda>kv kv2. fst kv2 = fst kv \<and> tokens_reordered (snd kv) (snd kv2)) verses ws"

section \<open>Example documents\<close>

text \<open>The example of the specification, before and after the merge.\<close>

definition example_definitions :: dict where
  "example_definitions = [(''G26'', JStr ''love''), (''G5547'', JStr ''Christ'')]"

definition example_verses :: dict where
  "example_verses =
    [(''John 3:16'',
      JObj [(''tokens'',
             JArr [JObj [(''strongs'', JStr ''G26''), (''strong_def'', JStr [])],
                   JObj [(''strongs'', JStr ''G9999'')]])])]"

definition example_verses_after :: dict where
  "example_verses_after =
    [(''John 3:16'',
      JObj [(''tokens'',
             JArr [JObj [(''strongs'', JStr ''G26''), (''strong_def'', JStr ''love'')],
                   JObj [(''strongs'', JStr ''G9999'')]])])]"

text \<open>Two tokens that name the same key without an entry, one with an old definition.\<close>

definition missing_twice_verses :: dict where
  "missing_twice_verses =
    [(''Mark 1:1'',
      JObj [(''tokens'',
             JArr [JObj [(''strongs'', JStr ''G9999'')],
                   JObj [(''strongs'', JStr ''G9999''), (''strong_def'', JStr ''old'')]])])]"

text \<open>A token with an empty \<^verbatim>\<open>strongs\<close>, one with \<^verbatim>\<open>null\<close> and one without the field.\<close>

definition falsy_verses :: dict where
  "falsy_verses =
    [(''Gen 1:1'',
      JObj [(''tokens'',
             JArr [JObj [(''strongs'', JStr []), (''strong_def'', JStr ''kept'')],
                   JObj [(''strongs'', JNull)],
                   JObj [(''text'', JStr ''In'')]])])]"

text \<open>A definition that is the empty string, and a token of that key with no \<^verbatim>\<open>strong_def\<close>.\<close>

definition empty_definitions :: dict where
  "empty_definitions = [(''G1'', JStr [])]"

definition bare_verses :: dict where
  "bare_verses = [(''Rev 1:1'', JObj [(''tokens'', JArr [JObj [(''strongs'', JStr ''G1'')]])])]"

text \<open>A definition that is \<^verbatim>\<open>NaN\<close>, and a token of that key, before and after the merge.\<close>

definition nan_definitions :: dict where
  "nan_definitions = [(''G1'', JFloat FNaN)]"

definition nan_verses :: dict where
  "nan_verses = [(''Rev 1:1'', JObj [(''tokens'', JArr [JObj [(''strongs'', JStr ''G1'')]])])]"

definition nan_verses_after :: dict where
  "nan_verses_after =
    [(''Rev 1:1'',
      JObj [(''tokens'',
             JArr [JObj [(''strongs'', JStr ''G1''), (''strong_def'', JFloat FNaN)]])])]"

text \<open>The example with its two tokens, and a second verse, in the other order.\<close>

definition two_verses :: dict where
  "two_verses =
    [(''John 3:16'',
      JObj [(''tokens'',
             JArr [JObj [(''strongs'', JStr ''G26''), (''strong_def'', JStr [])],
                   JObj [(''strongs'', JStr ''G9999'')]])]),
     (''John 1:1'', JObj [(''tokens'', JArr [JObj [(''strongs'', JStr ''G5547'')]])])]"

definition two_verses_tokens_swapped :: dict where
  "two_verses_tokens_swapped =
    [(''John 3:16'',
      JObj [(''tokens'',
             JArr [JObj [(''strongs'', JStr ''G9999'')],
                   JObj [(''strongs'', JStr ''G26''), (''strong_def'', JStr [])]])]),
     (''John 1:1'', JObj [(''tokens'', JArr [JObj [(''strongs'', JStr ''G5547'')]])])]"

definition two_verses_swapped :: dict where
  "two_verses_swapped =
    [(''John 1:1'', JObj [(''tokens'', JArr [JObj [(''strongs'', JStr ''G5547'')]])]),
     (''John 3:16'',
      JObj [(''tokens'',
             JArr [JObj [(''strongs'', JStr ''G9999'')],
                   JObj [(''strongs'', JStr ''G26''), (''strong_def'', JStr [])]])])]"

definition two_verses_after :: dict where
  "two_verses_after =
    [(''John 3:16'',
      JObj [(''tokens'',
             JArr [JObj [(''strongs'', JStr ''G26''), (''strong_def'', JStr ''love'')],
                   JObj [(''strongs'', JStr ''G9999'')]])]),
     (''John 1:1'',
      JObj [(''tokens'',
             JArr [JObj [(''strongs'', JStr ''G5547''), (''strong_def'', JStr ''Christ'')]])])]"

definition two_verses_tokens_swapped_after :: dict where
  "two_verses_tokens_swapped_after =
    [(''John 3:16'',
      JObj [(''tokens'',
             JArr [JObj [(''strongs'', JStr ''G9999'')],
                   JObj [(''strongs'', JStr ''G26''), (''strong_def'', JStr ''love'')]])]),
     (''John 1:1'',
      JObj [(''tokens'',
             JArr [JObj [(''strongs'', JStr ''G5547''), (''strong_def'', JStr ''Christ'')]])])]"

definition two_verses_swapped_after :: dict where
  "two_verses_swapped_after =
    [(''John 1:1'',
      JObj [(''tokens'',
             JArr [JObj [(''strongs'', JStr ''G5547''), (''strong_def'', JStr ''Christ'')]])]),
     (''John 3:16'',
      JObj [(''tokens'',
             JArr [JObj [(''strongs'', JStr ''G9999'')],
                   JObj [(''strongs'', JStr ''G26''), (''strong_def'', JStr ''love'')]])])]"

section \<open>The loops in closed form\<close>

subsection \<open>The frame after one token, one token list, one verse record, all of them\<close>

lemma add_effect_simps [simp]:
  "strongs_definitions (add_effect fr du dn dm) = strongs_definitions fr"
  "updated_count (add_effect fr du dn dm) = updated_count fr + du"
  "not_found_count (add_effect fr du dn dm) = not_found_count fr + dn"
  "missing_strongs (add_effect fr du dn dm) = missing_strongs fr \<union> dm"
  by (simp_all add: add_effect_def)

lemma add_effect_zero [simp]: "add_effect fr 0 0 {} = fr"
  by (simp add: add_effect_def)

lemma add_effect_add:
  "add_effect (add_effect fr a b c) a' b' c' = add_effect fr (a + a') (b + b') (c \<union> c')"
  by (simp add: add_effect_def add.assoc Un_assoc)

lemma process_token_effect:
  "process_token t fr =
     (case token_effect (strongs_definitions fr) t of
        Inl e \<Rightarrow> Inl e
      | Inr (t', du, dn, dm) \<Rightarrow> Inr (t', add_effect fr du dn dm))"
  by (simp add: process_token_def token_effect_def initial_frame_def add_effect_def
      split: sum.splits option.splits)

lemma process_token_tok:
  "process_token t fr =
     (if tok_ok (strongs_definitions fr) t
      then Inr (tok_new (strongs_definitions fr) t,
                add_effect fr (tok_du (strongs_definitions fr) t)
                  (tok_dn (strongs_definitions fr) t) (tok_dm (strongs_definitions fr) t))
      else Inl (case token_effect (strongs_definitions fr) t of Inl e \<Rightarrow> e | Inr r \<Rightarrow> TypeError))"
  by (simp add: process_token_effect tok_ok_def tok_new_def tok_du_def tok_dn_def tok_dm_def
      split: sum.splits)

lemma tokens_loop_ok:
  "list_all (tok_ok (strongs_definitions fr)) ts \<Longrightarrow>
   tokens_loop ts fr =
     Inr (map (tok_new (strongs_definitions fr)) ts,
          add_effect fr (sum_du (strongs_definitions fr) ts)
            (sum_dn (strongs_definitions fr) ts) (all_dm (strongs_definitions fr) ts))"
proof (induction ts arbitrary: fr)
  case Nil
  then show ?case by (simp add: sum_du_def sum_dn_def all_dm_def)
next
  case (Cons t ts)
  then show ?case
    by (simp add: process_token_tok add_effect_add sum_du_def sum_dn_def all_dm_def)
qed

lemma tokens_loop_fail:
  "\<not> list_all (tok_ok (strongs_definitions fr)) ts \<Longrightarrow> \<exists>e. tokens_loop ts fr = Inl e"
proof (induction ts arbitrary: fr)
  case Nil
  then show ?case by simp
next
  case (Cons t ts)
  show ?case
  proof (cases "tok_ok (strongs_definitions fr) t")
    case False
    then show ?thesis by (simp add: process_token_tok)
  next
    case True
    let ?fr' = "add_effect fr (tok_du (strongs_definitions fr) t)
                  (tok_dn (strongs_definitions fr) t) (tok_dm (strongs_definitions fr) t)"
    from True Cons.prems have "\<not> list_all (tok_ok (strongs_definitions ?fr')) ts" by simp
    from Cons.IH [OF this] obtain e where "tokens_loop ts ?fr' = Inl e" ..
    with True show ?thesis by (simp add: process_token_tok)
  qed
qed

lemma tokens_loop_Inr_iff:
  "tokens_loop ts fr = Inr r \<longleftrightarrow>
     list_all (tok_ok (strongs_definitions fr)) ts \<and>
     r = (map (tok_new (strongs_definitions fr)) ts,
          add_effect fr (sum_du (strongs_definitions fr) ts)
            (sum_dn (strongs_definitions fr) ts) (all_dm (strongs_definitions fr) ts))"
proof (cases "list_all (tok_ok (strongs_definitions fr)) ts")
  case True
  then show ?thesis by (auto simp: tokens_loop_ok)
next
  case False
  from tokens_loop_fail [OF this] obtain e where "tokens_loop ts fr = Inl e" ..
  with False show ?thesis by simp
qed

lemma tok_ok_JStr [simp]: "\<not> tok_ok defs (JStr s)"
  by (simp add: tok_ok_def token_effect_def process_token_def)

lemma verse_tokens_simps [simp]:
  "verse_tokens (JObj kvs) = (case map_of kvs ''tokens'' of Some (JArr ts) \<Rightarrow> ts | _ \<Rightarrow> [])"
  "verse_tokens JNull = []" "verse_tokens (JBool b) = []" "verse_tokens (JInt i) = []"
  "verse_tokens (JFloat x) = []" "verse_tokens (JStr s) = []" "verse_tokens (JArr xs) = []"
  by (simp_all add: verse_tokens_def)

lemma empty_sums [simp]: "sum_du defs [] = 0" "sum_dn defs [] = 0" "all_dm defs [] = {}"
  by (simp_all add: sum_du_def sum_dn_def all_dm_def)

lemma process_verse_Inr_iff:
  "process_verse vd fr = Inr r \<longleftrightarrow>
     verse_ok (strongs_definitions fr) vd \<and>
     r = (verse_new (strongs_definitions fr) vd,
          add_effect fr (sum_du (strongs_definitions fr) (verse_tokens vd))
            (sum_dn (strongs_definitions fr) (verse_tokens vd))
            (all_dm (strongs_definitions fr) (verse_tokens vd)))"
proof (cases vd)
  case (JObj kvs)
  show ?thesis
  proof (cases "map_of kvs ''tokens''")
    case None
    then have "''tokens'' \<notin> fst ` set kvs" by (simp add: map_of_eq_None_iff)
    with None JObj show ?thesis
      by (auto simp: process_verse_def verse_ok_def verse_new_def)
  next
    case (Some tv)
    then have in_keys: "''tokens'' \<in> fst ` set kvs"
      by (metis map_of_eq_None_iff option.distinct(1))
    show ?thesis
    proof (cases tv)
      case (JArr ts)
      with Some \<open>vd = JObj kvs\<close> in_keys have pv: "process_verse vd fr =
          (case tokens_loop ts fr of
             Inl e \<Rightarrow> Inl e
           | Inr (ts', fr') \<Rightarrow> Inr (JObj (AList.update ''tokens'' (JArr ts') kvs), fr'))"
        by (simp add: process_verse_def split: sum.splits)
      show ?thesis
      proof (cases "list_all (tok_ok (strongs_definitions fr)) ts")
        case True
        with pv JArr Some \<open>vd = JObj kvs\<close> show ?thesis
          by (auto simp: tokens_loop_ok verse_ok_def verse_new_def)
      next
        case False
        from tokens_loop_fail [OF this] obtain e where "tokens_loop ts fr = Inl e" ..
        with pv False JArr Some \<open>vd = JObj kvs\<close> show ?thesis
          by (simp add: verse_ok_def)
      qed
    next
      case (JObj a)
      with Some \<open>vd = JObj kvs\<close> in_keys show ?thesis
        by (cases a)
          (auto simp: process_verse_def verse_ok_def verse_new_def tokens_loop_Inr_iff
            process_token_tok split: sum.splits)
    next
      case (JStr s)
      with Some \<open>vd = JObj kvs\<close> in_keys show ?thesis
        by (cases s)
          (auto simp: process_verse_def verse_ok_def verse_new_def tokens_loop_Inr_iff
            process_token_tok split: sum.splits)
    qed (use Some \<open>vd = JObj kvs\<close> in_keys in
          \<open>auto simp: process_verse_def verse_ok_def verse_new_def\<close>)
  qed
qed (auto simp: process_verse_def verse_ok_def verse_new_def)

lemma sums_append:
  "sum_du defs (xs @ ys) = sum_du defs xs + sum_du defs ys"
  "sum_dn defs (xs @ ys) = sum_dn defs xs + sum_dn defs ys"
  "all_dm defs (xs @ ys) = all_dm defs xs \<union> all_dm defs ys"
  by (simp_all add: sum_du_def sum_dn_def all_dm_def)

lemma all_tokens_simps [simp]:
  "all_tokens [] = []"
  "all_tokens (kv # rest) = verse_tokens (snd kv) @ all_tokens rest"
  by (simp_all add: all_tokens_def)

lemma verses_loop_Cons_Inr:
  "verses_loop ((verse_ref, vd) # rest) fr = Inr r \<longleftrightarrow>
     (\<exists>vd' fr' rest' fr''. process_verse vd fr = Inr (vd', fr') \<and>
        verses_loop rest fr' = Inr (rest', fr'') \<and> r = ((verse_ref, vd') # rest', fr''))"
  by (auto split: sum.splits)

lemma verses_loop_Inr_iff:
  "verses_loop verses fr = Inr r \<longleftrightarrow>
     verses_ok (strongs_definitions fr) verses \<and>
     r = (verses_new (strongs_definitions fr) verses,
          add_effect fr (sum_du (strongs_definitions fr) (all_tokens verses))
            (sum_dn (strongs_definitions fr) (all_tokens verses))
            (all_dm (strongs_definitions fr) (all_tokens verses)))"
proof (induction verses arbitrary: fr r)
  case Nil
  show ?case by (auto simp: verses_ok_def verses_new_def)
next
  case (Cons kv rest)
  obtain verse_ref vd where kv: "kv = (verse_ref, vd)" by (cases kv)
  show ?case
    unfolding kv verses_loop_Cons_Inr process_verse_Inr_iff Cons.IH
    by (auto simp: verses_ok_def verses_new_def add_effect_add sums_append)
qed

lemma update_strong_definitions_Inr_iff:
  "update_strong_definitions verses defs = Inr (verses', u, n, m) \<longleftrightarrow>
     verses_ok defs verses \<and> verses' = verses_new defs verses \<and>
     u = sum_du defs (all_tokens verses) \<and> n = sum_dn defs (all_tokens verses) \<and>
     m = all_dm defs (all_tokens verses)"
proof -
  have iff: "merge_run verses defs = Inr r \<longleftrightarrow>
      verses_ok defs verses \<and>
      r = (verses_new defs verses,
           add_effect (initial_frame defs) (sum_du defs (all_tokens verses))
             (sum_dn defs (all_tokens verses)) (all_dm defs (all_tokens verses)))" for r
    by (simp add: merge_run_def verses_loop_Inr_iff initial_frame_def)
  show ?thesis
  proof (cases "verses_ok defs verses")
    case True
    with iff have "merge_run verses defs =
        Inr (verses_new defs verses,
             add_effect (initial_frame defs) (sum_du defs (all_tokens verses))
               (sum_dn defs (all_tokens verses)) (all_dm defs (all_tokens verses)))"
      by simp
    with True show ?thesis
      by (auto simp: update_strong_definitions_def initial_frame_def)
  next
    case False
    with iff have "merge_run verses defs \<noteq> Inr r" for r by simp
    then obtain e where "merge_run verses defs = Inl e"
      by (cases "merge_run verses defs") auto
    with False show ?thesis by (simp add: update_strong_definitions_def)
  qed
qed

subsection \<open>What the loop body does to a token\<close>

lemma token_effect_JObj:
  "token_effect defs (JObj tok) =
    (let sn = (case map_of tok ''strongs'' of None \<Rightarrow> JNull | Some v \<Rightarrow> v);
         old_def = (case map_of tok ''strong_def'' of None \<Rightarrow> JStr [] | Some v \<Rightarrow> v)
     in if \<not> py_truthy sn then Inr (JObj tok, 0, 0, {})
        else (case py_hash sn of
                Inl e \<Rightarrow> Inl e
              | Inr k \<Rightarrow>
                  (case dict_lookup defs k of
                     Some new_def \<Rightarrow>
                       if \<not> py_eq old_def new_def
                       then Inr (JObj (AList.update ''strong_def'' new_def tok), 1, 0, {})
                       else Inr (JObj tok, 0, 0, {})
                   | None \<Rightarrow> Inr (JObj tok, 0, 1, {k}))))"
  by (simp add: token_effect_def process_token_def initial_frame_def Let_def
      split: sum.splits option.splits)

lemma token_effect_not_obj:
  "\<forall>tok. t \<noteq> JObj tok \<Longrightarrow> token_effect defs t = Inl AttributeError"
  by (cases t) (simp_all add: token_effect_def process_token_def)

lemma tok_ok_obj: "tok_ok defs t \<Longrightarrow> \<exists>tok. t = JObj tok"
  by (cases t) (simp_all add: tok_ok_def token_effect_def process_token_def)

lemma py_eq_JStr_left [simp]: "py_eq (JStr s) y \<longleftrightarrow> y = JStr s"
  by (simp add: py_eq_def)

lemma py_eq_JStr_right: "py_eq v (JStr x) \<longleftrightarrow> v = JStr x"
  by (cases v) (auto simp: py_eq_def)

lemma py_eq_NaN [simp]: "\<not> py_eq (JFloat FNaN) y" "\<not> py_eq x (JFloat FNaN)"
  by (cases x; simp add: py_eq_def)+

lemma py_same_refl: "py_same x x"
proof (induction x)
  case (JArr xs)
  then show ?case by (auto simp: list_all2_same)
next
  case (JObj a)
  have "\<exists>v. map_of a k = Some v \<and> py_same v v" if "k \<in> set (map fst a)" for k
  proof -
    from that obtain v where v: "map_of a k = Some v"
      by (metis domD dom_map_of_conv_image_fst set_map)
    then have "(k, v) \<in> set a" by (rule map_of_SomeD)
    with JObj v show ?thesis by (auto simp: snds.simps)
  qed
  then show ?case by fastforce
qed auto

lemma py_eq_self: "py_eq x x \<longleftrightarrow> x \<noteq> JFloat FNaN"
  by (simp add: py_eq_def py_same_refl)

lemma py_eq_same: "py_eq x y \<Longrightarrow> py_same x y"
  by (simp add: py_eq_def)

lemma dict_lookup_in_values: "dict_lookup defs k = Some d \<Longrightarrow> d \<in> snd ` set defs"
  by (cases k) (auto dest: map_of_SomeD intro: rev_image_eqI)

lemma map_of_update_strong_def [simp]:
  "map_of (AList.update ''strong_def'' v tok) ''strongs'' = map_of tok ''strongs''"
  "map_of (AList.update ''strong_def'' v tok) ''strong_def'' = Some v"
  by (simp_all add: update_conv')

lemma tok_bounds:
  "tok_du defs t + tok_dn defs t \<le> 1" "finite (tok_dm defs t)" "card (tok_dm defs t) \<le> tok_dn defs t"
  by (cases t; simp add: tok_du_def tok_dn_def tok_dm_def token_effect_JObj Let_def
      token_effect_not_obj split: sum.splits option.splits)+

lemma tok_idem:
  assumes "tok_ok defs t"
  shows "tok_ok defs (tok_new defs t)" "tok_new defs (tok_new defs t) = tok_new defs t"
    "tok_dn defs (tok_new defs t) = tok_dn defs t"
    "tok_dm defs (tok_new defs t) = tok_dm defs t"
    "tok_du defs (tok_new defs t) = (if selects_nan defs t then 1 else 0)"
proof -
  from assms obtain tok where t: "t = JObj tok" by (auto dest: tok_ok_obj)
  show "tok_ok defs (tok_new defs t)" "tok_new defs (tok_new defs t) = tok_new defs t"
    "tok_dn defs (tok_new defs t) = tok_dn defs t"
    "tok_dm defs (tok_new defs t) = tok_dm defs t"
    using assms unfolding t
    by (auto simp: tok_ok_def tok_new_def tok_dn_def tok_dm_def token_effect_JObj
        Let_def py_eq_self split: sum.splits option.splits if_splits)
  show "tok_du defs (tok_new defs t) = (if selects_nan defs t then 1 else 0)"
    using assms unfolding t
    by (auto simp: tok_ok_def tok_new_def tok_du_def token_effect_JObj selects_nan_def
        token_key_def Let_def py_eq_self split: sum.splits option.splits if_splits)
qed

lemma selects_nan_values: "selects_nan defs t \<Longrightarrow> JFloat FNaN \<in> snd ` set defs"
  by (auto simp: selects_nan_def split: option.splits dest: dict_lookup_in_values)

subsection \<open>A token of the collection, before and after a run\<close>

lemma verse_tokens_verse_new:
  "verse_tokens (verse_new defs vd) = map (tok_new defs) (verse_tokens vd)"
  by (cases vd) (auto simp: verse_new_def update_conv' split: option.splits json.splits)

lemma verse_ok_tokens: "verse_ok defs vd \<Longrightarrow> list_all (tok_ok defs) (verse_tokens vd)"
  by (cases vd) (auto simp: verse_ok_def split: option.splits json.splits)

lemma token_in_all_tokens:
  "i < length verses \<Longrightarrow> j < length (verse_tokens (snd (verses ! i))) \<Longrightarrow>
   verse_tokens (snd (verses ! i)) ! j \<in> set (all_tokens verses)"
  by (force simp: all_tokens_def in_set_conv_nth)

lemma run_token:
  assumes "update_strong_definitions verses defs = Inr (verses', u, n, m)"
    and "i < length verses" and "j < length (verse_tokens (snd (verses ! i)))"
  shows "verse_tokens (snd (verses' ! i)) ! j = tok_new defs (verse_tokens (snd (verses ! i)) ! j)"
    and "tok_ok defs (verse_tokens (snd (verses ! i)) ! j)"
    and "length (verse_tokens (snd (verses' ! i))) = length (verse_tokens (snd (verses ! i)))"
    and "fst (verses' ! i) = fst (verses ! i)"
proof -
  from assms(1) have ok: "verses_ok defs verses" and new: "verses' = verses_new defs verses"
    by (simp_all add: update_strong_definitions_Inr_iff)
  from new assms(2) have nth: "verses' ! i = (fst (verses ! i), verse_new defs (snd (verses ! i)))"
    by (simp add: verses_new_def)
  from nth show "fst (verses' ! i) = fst (verses ! i)" by simp
  from nth show "length (verse_tokens (snd (verses' ! i))) = length (verse_tokens (snd (verses ! i)))"
    by (simp add: verse_tokens_verse_new)
  from nth assms(3)
  show "verse_tokens (snd (verses' ! i)) ! j = tok_new defs (verse_tokens (snd (verses ! i)) ! j)"
    by (simp add: verse_tokens_verse_new)
  from ok assms(2) have "verse_ok defs (snd (verses ! i))"
    by (simp add: verses_ok_def list_all_length)
  then have "list_all (tok_ok defs) (verse_tokens (snd (verses ! i)))" by (rule verse_ok_tokens)
  with assms(3) show "tok_ok defs (verse_tokens (snd (verses ! i)) ! j)"
    by (simp add: list_all_length)
qed

lemma tok_new_found:
  assumes "py_get tok ''strongs'' JNull = Inr (JStr s)" and "py_truthy (JStr s)"
    and "map_of defs s = Some d"
  shows "\<exists>v. py_get (tok_new defs tok) ''strong_def'' (JStr []) = Inr v \<and> py_same v d \<and>
           (d \<noteq> JFloat FNaN \<longrightarrow> py_eq v d) \<and> (d = JFloat FNaN \<longrightarrow> v = JFloat FNaN)"
proof -
  from assms(1) obtain kvs where tok: "tok = JObj kvs" by (cases tok) auto
  from assms show ?thesis unfolding tok
    by (auto simp: tok_new_def token_effect_JObj Let_def py_eq_self py_same_refl
        dest: py_eq_same split: option.splits)
qed

lemma example_run:
  "update_strong_definitions example_verses example_definitions =
     Inr (example_verses_after, 1, 1, {HStr ''G9999''})"
  by (simp add: update_strong_definitions_def merge_run_def initial_frame_def
      process_verse_def process_token_def example_verses_def example_definitions_def
      example_verses_after_def)

subsection \<open>Keys without an entry, and the counters\<close>

lemma tok_absent:
  assumes "py_get tok ''strongs'' JNull = Inr sn" and "py_truthy sn"
    and "py_hash sn = Inr k" and "dict_lookup defs k = None"
  shows "tok_new defs tok = tok" and "token_key tok = Some k" and "absent_key defs tok"
    and "tok_dm defs tok = {k}"
  using assms
  by (simp_all add: tok_new_def tok_dm_def token_effect_def process_token_def initial_frame_def
      token_key_def absent_key_def)

lemma tok_dn_absent: "tok_ok defs t \<Longrightarrow> tok_dn defs t = (if absent_key defs t then 1 else 0)"
  by (cases t)
    (auto simp: tok_ok_def tok_dn_def token_effect_JObj Let_def token_key_def absent_key_def
      token_effect_not_obj split: option.splits sum.splits)

lemma tok_dm_absent:
  "tok_ok defs t \<Longrightarrow> tok_dm defs t = (if absent_key defs t then {the (token_key t)} else {})"
  by (cases t)
    (auto simp: tok_ok_def tok_dm_def token_effect_JObj Let_def token_key_def absent_key_def
      token_effect_not_obj split: option.splits sum.splits)

lemma sum_dn_absent:
  "list_all (tok_ok defs) ts \<Longrightarrow> sum_dn defs ts = length (filter (absent_key defs) ts)"
  by (induction ts) (simp_all add: sum_dn_def tok_dn_absent)

lemma all_dm_absent:
  "list_all (tok_ok defs) ts \<Longrightarrow>
   all_dm defs ts = set (map (\<lambda>t. the (token_key t)) (filter (absent_key defs) ts))"
  by (induction ts) (auto simp: all_dm_def tok_dm_absent)

lemma verses_ok_all_tokens: "verses_ok defs verses \<Longrightarrow> list_all (tok_ok defs) (all_tokens verses)"
  by (induction verses) (auto simp: verses_ok_def dest: verse_ok_tokens)

lemma tok_falsy:
  assumes "py_get tok ''strongs'' JNull = Inr sn" and "\<not> py_truthy sn"
  shows "process_token tok fr = Inr (tok, fr)" and "tok_new defs tok = tok"
  using assms by (simp_all add: process_token_def tok_new_def token_effect_def)

lemma tok_equal:
  assumes "py_get tok ''strongs'' JNull = Inr sn" and "py_truthy sn" and "py_hash sn = Inr k"
    and "dict_lookup defs k = Some new_def"
    and "py_get tok ''strong_def'' (JStr []) = Inr old_def" and "py_eq old_def new_def"
  shows "strongs_definitions fr = defs \<Longrightarrow> process_token tok fr = Inr (tok, fr)"
    and "tok_new defs tok = tok"
  using assms by (simp_all add: process_token_def tok_new_def token_effect_def initial_frame_def)

lemma card_all_dm: "finite (all_dm defs ts) \<and> card (all_dm defs ts) \<le> sum_dn defs ts"
proof (induction ts)
  case Nil
  show ?case by simp
next
  case (Cons t ts)
  have eq: "all_dm defs (t # ts) = tok_dm defs t \<union> all_dm defs ts"
    by (simp add: all_dm_def)
  have "card (all_dm defs (t # ts)) \<le> card (tok_dm defs t) + card (all_dm defs ts)"
    unfolding eq by (rule card_Un_le)
  also have "\<dots> \<le> tok_dn defs t + sum_dn defs ts"
    using Cons tok_bounds(3) [of defs t] by simp
  finally show ?case using Cons tok_bounds(2) [of defs t] by (simp add: eq sum_dn_def)
qed

lemma sum_du_dn_le: "sum_du defs ts + sum_dn defs ts \<le> length ts"
proof (induction ts)
  case Nil
  show ?case by simp
next
  case (Cons t ts)
  with tok_bounds(1) [of defs t] show ?case by (simp add: sum_du_def sum_dn_def)
qed

lemma process_token_step:
  assumes "process_token tok fr = Inr (tok', fr')"
  shows "strongs_definitions fr' = strongs_definitions fr"
    and "(updated_count fr' = updated_count fr \<and> not_found_count fr' = not_found_count fr) \<or>
         (updated_count fr' = updated_count fr + 1 \<and> not_found_count fr' = not_found_count fr) \<or>
         (updated_count fr' = updated_count fr \<and> not_found_count fr' = not_found_count fr + 1)"
proof -
  from assms have ok: "tok_ok (strongs_definitions fr) tok"
    and fr': "fr' = add_effect fr (tok_du (strongs_definitions fr) tok)
                (tok_dn (strongs_definitions fr) tok) (tok_dm (strongs_definitions fr) tok)"
    by (auto simp: process_token_tok split: if_splits)
  from fr' show "strongs_definitions fr' = strongs_definitions fr" by simp
  from fr' tok_bounds(1) [of "strongs_definitions fr" tok]
  show "(updated_count fr' = updated_count fr \<and> not_found_count fr' = not_found_count fr) \<or>
         (updated_count fr' = updated_count fr + 1 \<and> not_found_count fr' = not_found_count fr) \<or>
         (updated_count fr' = updated_count fr \<and> not_found_count fr' = not_found_count fr + 1)"
    by (cases "tok_du (strongs_definitions fr) tok"; cases "tok_dn (strongs_definitions fr) tok")
      auto
qed

lemmas run_defs = update_strong_definitions_def merge_run_def initial_frame_def
  process_verse_def process_token_def

lemma missing_twice_run:
  "update_strong_definitions missing_twice_verses example_definitions =
     Inr (missing_twice_verses, 0, 2, {HStr ''G9999''})"
  by (simp add: run_defs missing_twice_verses_def example_definitions_def)

lemma falsy_run:
  "update_strong_definitions falsy_verses example_definitions = Inr (falsy_verses, 0, 0, {})"
  by (simp add: run_defs falsy_verses_def example_definitions_def)

lemma bare_run:
  "update_strong_definitions bare_verses empty_definitions = Inr (bare_verses, 0, 0, {})"
  by (simp add: run_defs bare_verses_def empty_definitions_def)

subsection \<open>A second run\<close>

lemma verse_ok_verse_new: "verse_ok defs vd \<Longrightarrow> verse_ok defs (verse_new defs vd)"
  by (cases vd)
    (auto simp: verse_ok_def verse_new_def update_conv' list_all_iff tok_idem(1)
      split: option.splits json.splits)

lemma map_tok_new_idem:
  "list_all (tok_ok defs) ts \<Longrightarrow> map (tok_new defs \<circ> tok_new defs) ts = map (tok_new defs) ts"
  by (induction ts) (simp_all add: tok_idem(2))

lemma verse_new_idem:
  "verse_ok defs vd \<Longrightarrow> verse_new defs (verse_new defs vd) = verse_new defs vd"
  by (cases vd)
    (auto simp: verse_ok_def verse_new_def update_conv' map_tok_new_idem
      split: option.splits json.splits)

lemma all_tokens_verses_new:
  "all_tokens (verses_new defs verses) = map (tok_new defs) (all_tokens verses)"
  by (induction verses) (simp_all add: verses_new_def verse_tokens_verse_new)

lemma sums_tok_new:
  "list_all (tok_ok defs) ts \<Longrightarrow>
     sum_du defs (map (tok_new defs) ts) = length (filter (selects_nan defs) ts) \<and>
     sum_dn defs (map (tok_new defs) ts) = sum_dn defs ts \<and>
     all_dm defs (map (tok_new defs) ts) = all_dm defs ts"
  by (induction ts) (simp_all add: sum_du_def sum_dn_def all_dm_def tok_idem)

lemma no_nan_selected:
  "JFloat FNaN \<notin> snd ` set defs \<Longrightarrow> filter (selects_nan defs) ts = []"
  by (auto simp: filter_empty_conv dest: selects_nan_values)

lemma nan_run:
  "update_strong_definitions nan_verses nan_definitions = Inr (nan_verses_after, 1, 0, {})"
  by (simp add: update_strong_definitions_def merge_run_def initial_frame_def
      process_verse_def process_token_def nan_verses_def nan_definitions_def
      nan_verses_after_def)

lemma nan_second_run:
  "update_strong_definitions nan_verses_after nan_definitions =
     Inr (nan_verses_after, 1, 0, {})"
  by (simp add: update_strong_definitions_def merge_run_def initial_frame_def
      process_verse_def process_token_def nan_definitions_def nan_verses_after_def)

subsection \<open>What a run leaves in place\<close>

lemma filter_update_other:
  "filter (\<lambda>kv. fst kv \<noteq> k) (AList.update k v al) = filter (\<lambda>kv. fst kv \<noteq> k) al"
  by (induction al) auto

lemma token_frame_tok_new: "tok_ok defs t \<Longrightarrow> token_frame t (tok_new defs t)"
  by (cases t)
    (auto simp: tok_ok_def tok_new_def token_frame_def token_effect_JObj Let_def
      filter_update_other update_keys token_effect_not_obj split: sum.splits option.splits)

lemma verse_frame_verse_new: "verse_ok defs vd \<Longrightarrow> verse_frame vd (verse_new defs vd)"
proof (cases vd)
  case (JObj kvs)
  assume ok: "verse_ok defs vd"
  show ?thesis
  proof (cases "map_of kvs ''tokens''")
    case None
    with JObj show ?thesis by (simp add: verse_frame_def verse_new_def)
  next
    case (Some tv)
    then have in_keys: "''tokens'' \<in> fst ` set kvs"
      by (metis map_of_eq_None_iff option.distinct(1))
    show ?thesis
    proof (cases tv)
      case (JArr ts)
      with ok JObj Some have "list_all (tok_ok defs) ts" by (simp add: verse_ok_def)
      then have "list_all2 token_frame ts (map (tok_new defs) ts)"
        by (induction ts) (simp_all add: token_frame_tok_new)
      with JArr JObj Some in_keys show ?thesis
        by (simp add: verse_frame_def verse_new_def update_conv' filter_update_other update_keys)
    qed (use JObj Some in \<open>simp_all add: verse_frame_def verse_new_def\<close>)
  qed
qed (simp_all add: verse_frame_def verse_new_def)

subsection \<open>Another order of the tokens and of the verses\<close>

lemma sums_mset:
  "mset ts2 = mset ts \<Longrightarrow>
     sum_du defs ts2 = sum_du defs ts \<and> sum_dn defs ts2 = sum_dn defs ts \<and>
     all_dm defs ts2 = all_dm defs ts"
proof -
  assume eq: "mset ts2 = mset ts"
  have "sum_list (map f ts2) = sum_list (map f ts)" for f :: "json \<Rightarrow> nat"
  proof -
    have "sum_list (map f ts2) = sum_mset (image_mset f (mset ts2))"
      by (metis mset_map sum_mset_sum_list)
    also have "\<dots> = sum_mset (image_mset f (mset ts))" by (simp add: eq)
    also have "\<dots> = sum_list (map f ts)" by (metis mset_map sum_mset_sum_list)
    finally show ?thesis .
  qed
  moreover from eq have "set ts2 = set ts" by (rule mset_eq_setD)
  ultimately show ?thesis by (simp add: sum_du_def sum_dn_def all_dm_def)
qed

lemma mset_all_tokens:
  "mset (all_tokens verses) = (\<Sum>kv \<in># mset verses. mset (verse_tokens (snd kv)))"
  by (induction verses) simp_all

lemma tokens_reordered_cases:
  assumes "tokens_reordered vd vd2"
  obtains "vd2 = vd"
  | kvs ts ts2 where "vd = JObj kvs" and "map_of kvs ''tokens'' = Some (JArr ts)"
      and "mset ts2 = mset ts" and "vd2 = JObj (AList.update ''tokens'' (JArr ts2) kvs)"
proof (cases "vd2 = vd")
  case True
  then show ?thesis by (rule that(1))
next
  case False
  with assms have c: "(case vd of
        JObj kvs \<Rightarrow>
          (case map_of kvs ''tokens'' of
             Some (JArr ts) \<Rightarrow>
               mset (verse_tokens vd2) = mset ts \<and>
               vd2 = JObj (AList.update ''tokens'' (JArr (verse_tokens vd2)) kvs)
           | _ \<Rightarrow> False)
      | _ \<Rightarrow> False)"
    by (simp add: tokens_reordered_def)
  then obtain kvs where vd: "vd = JObj kvs" by (cases vd) simp_all
  with c obtain tv where tv: "map_of kvs ''tokens'' = Some tv"
    by (cases "map_of kvs ''tokens''") simp_all
  with c vd obtain ts where ts: "tv = JArr ts" by (cases tv) simp_all
  from c vd tv ts have "mset (verse_tokens vd2) = mset ts"
    and "vd2 = JObj (AList.update ''tokens'' (JArr (verse_tokens vd2)) kvs)"
    by simp_all
  with vd tv ts show ?thesis using that(2) by blast
qed

lemma verse_tokens_update [simp]:
  "verse_tokens (JObj (AList.update ''tokens'' (JArr ts) kvs)) = ts"
  by (simp add: update_conv')

lemma tokens_reordered_tokens:
  "tokens_reordered vd vd2 \<Longrightarrow> mset (verse_tokens vd2) = mset (verse_tokens vd)"
  by (erule tokens_reordered_cases) (simp_all add: update_conv')

lemma tokens_reordered_ok:
  assumes "tokens_reordered vd vd2" and "verse_ok defs vd"
  shows "verse_ok defs vd2"
  using assms(1)
proof (cases rule: tokens_reordered_cases)
  case 1
  with assms(2) show ?thesis by simp
next
  case (2 kvs ts ts2)
  from 2(3) have "set ts2 = set ts" by (rule mset_eq_setD)
  with assms(2) 2 show ?thesis by (simp add: verse_ok_def list_all_iff update_conv')
qed

lemma tokens_reordered_new:
  assumes "tokens_reordered vd vd2"
  shows "tokens_reordered (verse_new defs vd) (verse_new defs vd2)"
  using assms
proof (cases rule: tokens_reordered_cases)
  case 1
  then show ?thesis by (simp add: tokens_reordered_def)
next
  case (2 kvs ts ts2)
  from 2(3) have "mset (map (tok_new defs) ts2) = mset (map (tok_new defs) ts)" by simp
  with 2 show ?thesis
    by (simp add: tokens_reordered_def verse_new_def update_conv')
qed

lemma entries_reordered_run:
  assumes "entries_reordered verses ws"
  shows "verses_ok defs verses \<Longrightarrow> verses_ok defs ws"
    and "entries_reordered (verses_new defs verses) (verses_new defs ws)"
    and "mset (all_tokens ws) = mset (all_tokens verses)"
proof -
  from assms have rel:
    "list_all2 (\<lambda>kv kv2. fst kv2 = fst kv \<and> tokens_reordered (snd kv) (snd kv2)) verses ws"
    by (simp add: entries_reordered_def)
  from rel have "list_all (\<lambda>kv. verse_ok defs (snd kv)) verses \<longrightarrow>
      list_all (\<lambda>kv. verse_ok defs (snd kv)) ws"
    by (induction verses ws rule: list_all2_induct) (auto intro: tokens_reordered_ok)
  then show "verses_ok defs verses \<Longrightarrow> verses_ok defs ws"
    by (simp add: verses_ok_def)
  from rel show "entries_reordered (verses_new defs verses) (verses_new defs ws)"
    unfolding entries_reordered_def verses_new_def
    by (induction verses ws rule: list_all2_induct) (simp_all add: tokens_reordered_new)
  from rel show "mset (all_tokens ws) = mset (all_tokens verses)"
    by (induction verses ws rule: list_all2_induct) (simp_all add: tokens_reordered_tokens)
qed

lemma mset_verses_run:
  assumes "mset verses2 = mset ws"
  shows "verses_ok defs ws \<Longrightarrow> verses_ok defs verses2"
    and "mset (verses_new defs verses2) = mset (verses_new defs ws)"
    and "mset (all_tokens verses2) = mset (all_tokens ws)"
proof -
  from assms have "set verses2 = set ws" by (rule mset_eq_setD)
  then show "verses_ok defs ws \<Longrightarrow> verses_ok defs verses2"
    by (simp add: verses_ok_def list_all_iff)
  from assms show "mset (verses_new defs verses2) = mset (verses_new defs ws)"
    by (simp add: verses_new_def)
  from assms show "mset (all_tokens verses2) = mset (all_tokens ws)"
    by (simp add: mset_all_tokens)
qed

lemma two_verses_run:
  "update_strong_definitions two_verses example_definitions =
     Inr (two_verses_after, 2, 1, {HStr ''G9999''})"
  by (simp add: run_defs two_verses_def two_verses_after_def example_definitions_def)

lemma two_verses_entries: "entries_reordered two_verses two_verses_tokens_swapped"
  by (simp add: entries_reordered_def tokens_reordered_def two_verses_def
      two_verses_tokens_swapped_def)

lemma two_verses_mset: "mset two_verses_swapped = mset two_verses_tokens_swapped"
  by (simp add: two_verses_swapped_def two_verses_tokens_swapped_def)

subsection \<open>Documents of the expected shape make the run return\<close>

lemma token_shaped_ok: "token_shaped t \<Longrightarrow> tok_ok defs t"
proof (cases t)
  case (JObj a)
  assume "token_shaped t"
  with JObj show ?thesis
    by (cases "map_of a ''strongs''")
      (auto simp: token_shaped_def tok_ok_def token_effect_JObj Let_def
        split: json.splits option.splits)
qed (simp_all add: token_shaped_def)

lemma verse_shaped_ok: "verse_shaped vd \<Longrightarrow> verse_ok defs vd"
proof (cases vd)
  case (JObj kvs)
  assume sh: "verse_shaped vd"
  show ?thesis
  proof (cases "map_of kvs ''tokens''")
    case None
    with JObj show ?thesis by (simp add: verse_ok_def)
  next
    case (Some tv)
    with sh JObj show ?thesis
      by (cases tv) (auto simp: verse_shaped_def verse_ok_def list_all_iff token_shaped_ok)
  qed
qed (simp_all add: verse_shaped_def)

lemma well_shaped_run_returns:
  assumes "list_all (\<lambda>kv. verse_shaped (snd kv)) verses"
  shows "\<exists>verses' u n m. update_strong_definitions verses defs = Inr (verses', u, n, m)"
proof -
  from assms have "verses_ok defs verses"
    by (simp add: verses_ok_def list_all_iff verse_shaped_ok)
  then show ?thesis by (simp add: update_strong_definitions_Inr_iff)
qed

section \<open>Properties\<close>

text \<open>
  C1. The claim: after a run, a token whose \<^verbatim>\<open>strongs\<close> value is a truthy string with an
  entry in the definitions has a \<^verbatim>\<open>strong_def\<close> (read with default \<^verbatim>\<open>''\<close>) that is
  \<^verbatim>\<open>==\<close> to that entry. It fails for an entry that is \<^verbatim>\<open>NaN\<close>: the token gets the entry,
  and \<^verbatim>\<open>NaN == NaN\<close> is false.
\<close>

theorem nan_definition_not_equal_after_run:
  "update_strong_definitions nan_verses nan_definitions = Inr (nan_verses_after, 1, 0, {}) \<and>
   py_get (verse_tokens (snd (nan_verses ! 0)) ! 0) ''strongs'' JNull = Inr (JStr ''G1'') \<and>
   py_truthy (JStr ''G1'') \<and>
   map_of nan_definitions ''G1'' = Some (JFloat FNaN) \<and>
   py_get (verse_tokens (snd (nan_verses_after ! 0)) ! 0) ''strong_def'' (JStr []) =
     Inr (JFloat FNaN) \<and>
   \<not> py_eq (JFloat FNaN) (JFloat FNaN)"
proof -
  have s: "py_get (verse_tokens (snd (nan_verses ! 0)) ! 0) ''strongs'' JNull =
      Inr (JStr ''G1'')"
    by (simp add: nan_verses_def)
  have d: "map_of nan_definitions ''G1'' = Some (JFloat FNaN)"
    by (simp add: nan_definitions_def)
  have v: "py_get (verse_tokens (snd (nan_verses_after ! 0)) ! 0) ''strong_def'' (JStr []) =
      Inr (JFloat FNaN)"
    by (simp add: nan_verses_after_def)
  from nan_run s d v show ?thesis by simp
qed

text \<open>
  C1, as amended. After a run that returns, every token of a verse record's token
  sequence whose \<^verbatim>\<open>strongs\<close> value is a truthy string with an entry in the definitions
  has a \<^verbatim>\<open>strong_def\<close> (read with default \<^verbatim>\<open>''\<close>) that is \<^verbatim>\<open>==\<close> to that entry, unless the
  entry is \<^verbatim>\<open>NaN\<close>; then the \<^verbatim>\<open>strong_def\<close> is \<^verbatim>\<open>NaN\<close> as well. For an entry that is a
  string the two are the same string.
\<close>

theorem found_token_gets_definition:
  assumes "update_strong_definitions verses defs = Inr (verses', u, n, m)"
    and "i < length verses"
    and "j < length (verse_tokens (snd (verses ! i)))"
    and "py_get (verse_tokens (snd (verses ! i)) ! j) ''strongs'' JNull = Inr (JStr s)"
    and "py_truthy (JStr s)"
    and "map_of defs s = Some d"
  shows "\<exists>v. py_get (verse_tokens (snd (verses' ! i)) ! j) ''strong_def'' (JStr []) = Inr v \<and>
             (d \<noteq> JFloat FNaN \<longrightarrow> py_eq v d) \<and>
             (d = JFloat FNaN \<longrightarrow> v = JFloat FNaN) \<and>
             (\<forall>x. d = JStr x \<longrightarrow> v = JStr x)"
proof -
  from tok_new_found [OF assms(4-6)] run_token(1) [OF assms(1-3)]
  obtain v where v: "py_get (verse_tokens (snd (verses' ! i)) ! j) ''strong_def'' (JStr []) = Inr v"
    and eq: "d \<noteq> JFloat FNaN \<longrightarrow> py_eq v d" and nan: "d = JFloat FNaN \<longrightarrow> v = JFloat FNaN"
    by auto
  from eq have "\<forall>x. d = JStr x \<longrightarrow> v = JStr x" by (auto simp: py_eq_JStr_right)
  with v eq nan show ?thesis by blast
qed

theorem found_token_gets_definition_witness:
  "update_strong_definitions example_verses example_definitions =
     Inr (example_verses_after, 1, 1, {HStr ''G9999''}) \<and>
   (0::nat) < length example_verses \<and>
   (0::nat) < length (verse_tokens (snd (example_verses ! 0))) \<and>
   py_get (verse_tokens (snd (example_verses ! 0)) ! 0) ''strongs'' JNull = Inr (JStr ''G26'') \<and>
   py_truthy (JStr ''G26'') \<and>
   map_of example_definitions ''G26'' = Some (JStr ''love'') \<and>
   JStr ''love'' \<noteq> JFloat FNaN \<and>
   py_get (verse_tokens (snd (example_verses_after ! 0)) ! 0) ''strong_def'' (JStr []) =
     Inr (JStr ''love'') \<and>
   py_eq (JStr ''love'') (JStr ''love'')"
proof -
  note run = example_run
  have i: "(0::nat) < length example_verses" by (simp add: example_verses_def)
  have j: "(0::nat) < length (verse_tokens (snd (example_verses ! 0)))"
    by (simp add: example_verses_def)
  have s: "py_get (verse_tokens (snd (example_verses ! 0)) ! 0) ''strongs'' JNull =
      Inr (JStr ''G26'')"
    by (simp add: example_verses_def)
  have t: "py_truthy (JStr ''G26'')" by simp
  have d: "map_of example_definitions ''G26'' = Some (JStr ''love'')"
    by (simp add: example_definitions_def)
  have ne: "JStr ''love'' \<noteq> JFloat FNaN" by simp
  from found_token_gets_definition [OF run i j s t d]
  obtain v where v: "py_get (verse_tokens (snd (example_verses_after ! 0)) ! 0)
        ''strong_def'' (JStr []) = Inr v"
    and eq: "JStr ''love'' \<noteq> JFloat FNaN \<longrightarrow> py_eq v (JStr ''love'')"
    and str: "\<forall>x. JStr ''love'' = JStr x \<longrightarrow> v = JStr x"
    by blast
  from str have "v = JStr ''love''" by simp
  with v eq ne run i j s t d show ?thesis by blast
qed

text \<open>
  C2. After a run that returns, a token whose \<^verbatim>\<open>strongs\<close> value is truthy and has no
  entry in the definitions (a string that is not a key, or a number or \<^verbatim>\<open>true\<close>, which
  never is one) is what it was before (so is its \<^verbatim>\<open>strong_def\<close>); the not-found count is
  the number of token occurrences whose key has no entry; the missing set is exactly
  the set of their keys, so it holds the key of this token, once however many tokens
  carry it: its size is the number of distinct such keys.
\<close>

theorem absent_key_counted_and_recorded:
  assumes "update_strong_definitions verses defs = Inr (verses', u, n, m)"
    and "i < length verses"
    and "j < length (verse_tokens (snd (verses ! i)))"
    and "py_get (verse_tokens (snd (verses ! i)) ! j) ''strongs'' JNull = Inr sn"
    and "py_truthy sn"
    and "py_hash sn = Inr k"
    and "dict_lookup defs k = None"
  shows "verse_tokens (snd (verses' ! i)) ! j = verse_tokens (snd (verses ! i)) ! j \<and>
         n = length (filter (absent_key defs) (all_tokens verses)) \<and>
         absent_key defs (verse_tokens (snd (verses ! i)) ! j) \<and>
         m = set (map (\<lambda>t. the (token_key t)) (filter (absent_key defs) (all_tokens verses))) \<and>
         k \<in> m \<and>
         card m = length (remdups (map (\<lambda>t. the (token_key t))
                                   (filter (absent_key defs) (all_tokens verses))))"
proof -
  let ?tok = "verse_tokens (snd (verses ! i)) ! j"
  from assms(1) have ok: "verses_ok defs verses"
    and n: "n = sum_dn defs (all_tokens verses)" and m: "m = all_dm defs (all_tokens verses)"
    by (simp_all add: update_strong_definitions_Inr_iff)
  from ok have toks: "list_all (tok_ok defs) (all_tokens verses)" by (rule verses_ok_all_tokens)
  note absent = tok_absent [OF assms(4-7)]
  have same: "verse_tokens (snd (verses' ! i)) ! j = ?tok"
    using run_token(1) [OF assms(1-3)] absent(1) by simp
  have mem: "?tok \<in> set (all_tokens verses)" using assms(2,3) by (rule token_in_all_tokens)
  have m_eq: "m = set (map (\<lambda>t. the (token_key t)) (filter (absent_key defs) (all_tokens verses)))"
    using m toks by (simp add: all_dm_absent)
  have "k \<in> m"
    unfolding m_eq using mem absent(2,3) by force
  moreover have "card m = length (remdups (map (\<lambda>t. the (token_key t))
                                   (filter (absent_key defs) (all_tokens verses))))"
    unfolding m_eq by (rule List.card_set)
  ultimately show ?thesis using same n toks absent(3) m_eq by (simp add: sum_dn_absent)
qed

theorem absent_key_counted_and_recorded_witness:
  "update_strong_definitions missing_twice_verses example_definitions =
     Inr (missing_twice_verses, 0, 2, {HStr ''G9999''}) \<and>
   (0::nat) < length missing_twice_verses \<and>
   (1::nat) < length (verse_tokens (snd (missing_twice_verses ! 0))) \<and>
   py_get (verse_tokens (snd (missing_twice_verses ! 0)) ! 1) ''strongs'' JNull =
     Inr (JStr ''G9999'') \<and>
   py_truthy (JStr ''G9999'') \<and>
   py_hash (JStr ''G9999'') = Inr (HStr ''G9999'') \<and>
   dict_lookup example_definitions (HStr ''G9999'') = None \<and>
   verse_tokens (snd (missing_twice_verses ! 0)) ! 1 =
     verse_tokens (snd (missing_twice_verses ! 0)) ! 1 \<and>
   (2::nat) = length (filter (absent_key example_definitions) (all_tokens missing_twice_verses)) \<and>
   absent_key example_definitions (verse_tokens (snd (missing_twice_verses ! 0)) ! 1) \<and>
   {HStr ''G9999''} =
     set (map (\<lambda>t. the (token_key t))
       (filter (absent_key example_definitions) (all_tokens missing_twice_verses))) \<and>
   HStr ''G9999'' \<in> {HStr ''G9999''} \<and>
   card {HStr ''G9999''} =
     length (remdups (map (\<lambda>t. the (token_key t))
       (filter (absent_key example_definitions) (all_tokens missing_twice_verses))))"
proof -
  note run = missing_twice_run
  have i: "(0::nat) < length missing_twice_verses" by (simp add: missing_twice_verses_def)
  have j: "(1::nat) < length (verse_tokens (snd (missing_twice_verses ! 0)))"
    by (simp add: missing_twice_verses_def)
  have s: "py_get (verse_tokens (snd (missing_twice_verses ! 0)) ! 1) ''strongs'' JNull =
      Inr (JStr ''G9999'')"
    by (simp add: missing_twice_verses_def)
  have t: "py_truthy (JStr ''G9999'')" by simp
  have h: "py_hash (JStr ''G9999'') = Inr (HStr ''G9999'')" by simp
  have d: "dict_lookup example_definitions (HStr ''G9999'') = None"
    by (simp add: example_definitions_def)
  from absent_key_counted_and_recorded [OF run i j s t h d] run i j s t h d
  show ?thesis by blast
qed

text \<open>
  C3. A token whose \<^verbatim>\<open>strongs\<close> value is falsy (the field is absent or \<^verbatim>\<open>null\<close>, which
  \<^verbatim>\<open>get\<close> reads as \<^verbatim>\<open>None\<close>, or it is empty) is what it was before after a run that
  returns, and the loop body on it returns the frame it was given: neither counter moves.
\<close>

theorem falsy_strongs_skipped:
  assumes "update_strong_definitions verses defs = Inr (verses', u, n, m)"
    and "i < length verses"
    and "j < length (verse_tokens (snd (verses ! i)))"
    and "py_get (verse_tokens (snd (verses ! i)) ! j) ''strongs'' JNull = Inr sn"
    and "\<not> py_truthy sn"
  shows "verse_tokens (snd (verses' ! i)) ! j = verse_tokens (snd (verses ! i)) ! j \<and>
         (\<forall>fr. process_token (verse_tokens (snd (verses ! i)) ! j) fr =
                 Inr (verse_tokens (snd (verses ! i)) ! j, fr))"
  using run_token(1) [OF assms(1-3)] tok_falsy [OF assms(4,5)] by simp

theorem falsy_strongs_skipped_witness:
  "update_strong_definitions falsy_verses example_definitions = Inr (falsy_verses, 0, 0, {}) \<and>
   (0::nat) < length falsy_verses \<and>
   (0::nat) < length (verse_tokens (snd (falsy_verses ! 0))) \<and>
   py_get (verse_tokens (snd (falsy_verses ! 0)) ! 0) ''strongs'' JNull = Inr (JStr []) \<and>
   \<not> py_truthy (JStr []) \<and>
   verse_tokens (snd (falsy_verses ! 0)) ! 0 =
     JObj [(''strongs'', JStr []), (''strong_def'', JStr ''kept'')] \<and>
   (\<forall>fr. process_token (verse_tokens (snd (falsy_verses ! 0)) ! 0) fr =
           Inr (verse_tokens (snd (falsy_verses ! 0)) ! 0, fr))"
proof -
  note run = falsy_run
  have i: "(0::nat) < length falsy_verses" by (simp add: falsy_verses_def)
  have j: "(0::nat) < length (verse_tokens (snd (falsy_verses ! 0)))"
    by (simp add: falsy_verses_def)
  have s: "py_get (verse_tokens (snd (falsy_verses ! 0)) ! 0) ''strongs'' JNull = Inr (JStr [])"
    by (simp add: falsy_verses_def)
  have t: "\<not> py_truthy (JStr [])" by simp
  have tok: "verse_tokens (snd (falsy_verses ! 0)) ! 0 =
      JObj [(''strongs'', JStr []), (''strong_def'', JStr ''kept'')]"
    by (simp add: falsy_verses_def)
  from falsy_strongs_skipped [OF run i j s t] run i j s t tok show ?thesis by blast
qed

text \<open>
  C4. The claim: a second run on the collection a run returned, with the same
  definitions, has an updated count of zero. It fails for a definition that is
  \<^verbatim>\<open>NaN\<close>: \<^verbatim>\<open>old_def != new_def\<close> is true of \<^verbatim>\<open>NaN\<close> against itself, so the second run
  assigns again and counts one update.
\<close>

theorem nan_definition_updated_again:
  "update_strong_definitions nan_verses nan_definitions = Inr (nan_verses_after, 1, 0, {}) \<and>
   update_strong_definitions nan_verses_after nan_definitions =
     Inr (nan_verses_after, 1, 0, {}) \<and>
   (1::nat) \<noteq> 0"
  by (simp add: nan_run nan_second_run)

text \<open>
  C4, as amended. When a run returns, a second run on the collection it returned, with
  the same definitions, returns that collection unchanged, with the same not-found
  count and missing set; its updated count is the number of tokens whose key selects a
  definition that is \<^verbatim>\<open>NaN\<close>, so it is zero when no definition is \<^verbatim>\<open>NaN\<close>.
\<close>

theorem second_run_changes_nothing:
  assumes "update_strong_definitions verses defs = Inr (verses', u, n, m)"
  shows "update_strong_definitions verses' defs =
           Inr (verses', length (filter (selects_nan defs) (all_tokens verses)), n, m) \<and>
         (JFloat FNaN \<notin> snd ` set defs \<longrightarrow>
            update_strong_definitions verses' defs = Inr (verses', 0, n, m))"
proof -
  from assms have ok: "verses_ok defs verses" and new: "verses' = verses_new defs verses"
    and n: "n = sum_dn defs (all_tokens verses)" and m: "m = all_dm defs (all_tokens verses)"
    by (simp_all add: update_strong_definitions_Inr_iff)
  from ok have ok': "verses_ok defs verses'"
    unfolding new by (simp add: verses_ok_def verses_new_def list_all_iff verse_ok_verse_new)
  from ok have same: "verses_new defs verses' = verses'"
    unfolding new by (simp add: verses_ok_def verses_new_def list_all_iff verse_new_idem)
  from ok have toks: "list_all (tok_ok defs) (all_tokens verses)" by (rule verses_ok_all_tokens)
  have "all_tokens verses' = map (tok_new defs) (all_tokens verses)"
    unfolding new by (rule all_tokens_verses_new)
  with sums_tok_new [OF toks] ok' same n m
  have second: "update_strong_definitions verses' defs =
      Inr (verses', length (filter (selects_nan defs) (all_tokens verses)), n, m)"
    by (simp add: update_strong_definitions_Inr_iff)
  then show ?thesis by (simp add: no_nan_selected)
qed

theorem second_run_changes_nothing_witness:
  "update_strong_definitions example_verses example_definitions =
     Inr (example_verses_after, 1, 1, {HStr ''G9999''}) \<and>
   JFloat FNaN \<notin> snd ` set example_definitions \<and>
   update_strong_definitions example_verses_after example_definitions =
     Inr (example_verses_after, 0, 1, {HStr ''G9999''})"
proof -
  have no_nan: "JFloat FNaN \<notin> snd ` set example_definitions"
    by (simp add: example_definitions_def)
  from second_run_changes_nothing [OF example_run] no_nan example_run show ?thesis by blast
qed

text \<open>
  C5. Frame: a run that returns keeps the verse keys and their order, every field of
  every verse record other than the tokens, the length and order of every token list,
  and every field of every token other than \<^verbatim>\<open>strong_def\<close>.
\<close>

theorem only_strong_def_changes:
  assumes "update_strong_definitions verses defs = Inr (verses', u, n, m)"
  shows "collection_frame verses verses'"
proof -
  from assms have ok: "verses_ok defs verses" and new: "verses' = verses_new defs verses"
    by (simp_all add: update_strong_definitions_Inr_iff)
  from ok show ?thesis
    unfolding new collection_frame_def verses_new_def verses_ok_def
    by (induction verses) (simp_all add: verse_frame_verse_new)
qed

theorem only_strong_def_changes_witness:
  "update_strong_definitions example_verses example_definitions =
     Inr (example_verses_after, 1, 1, {HStr ''G9999''}) \<and>
   collection_frame example_verses example_verses_after"
  using only_strong_def_changes [OF example_run] example_run by blast

text \<open>
  C6. The \<^verbatim>\<open>strongs_definitions\<close> a run ends with are the ones it was given, and no
  step of either loop body changes them.
\<close>

theorem definitions_never_mutated:
  "(merge_run verses defs = Inr (verses', fr) \<longrightarrow> strongs_definitions fr = defs) \<and>
   (process_token tok fr0 = Inr (tok', fr1) \<longrightarrow>
      strongs_definitions fr1 = strongs_definitions fr0) \<and>
   (process_verse verse_data fr2 = Inr (verse_data', fr3) \<longrightarrow>
      strongs_definitions fr3 = strongs_definitions fr2)"
  using process_token_step(1) [of tok fr0 tok' fr1]
  by (auto simp: merge_run_def verses_loop_Inr_iff process_verse_Inr_iff initial_frame_def)

theorem definitions_never_mutated_witness:
  "merge_run example_verses example_definitions =
     Inr (example_verses_after,
          \<lparr>strongs_definitions = example_definitions, updated_count = 1, not_found_count = 1,
           missing_strongs = {HStr ''G9999''}\<rparr>) \<and>
   strongs_definitions
     \<lparr>strongs_definitions = example_definitions, updated_count = 1, not_found_count = 1,
      missing_strongs = {HStr ''G9999''}\<rparr> = example_definitions \<and>
   process_token (JObj [(''strongs'', JStr ''G26''), (''strong_def'', JStr [])])
      (initial_frame example_definitions) =
     Inr (JObj [(''strongs'', JStr ''G26''), (''strong_def'', JStr ''love'')],
          \<lparr>strongs_definitions = example_definitions, updated_count = 1, not_found_count = 0,
           missing_strongs = {}\<rparr>) \<and>
   strongs_definitions
     \<lparr>strongs_definitions = example_definitions, updated_count = 1, not_found_count = 0,
      missing_strongs = {}\<rparr> = strongs_definitions (initial_frame example_definitions) \<and>
   process_verse (snd (example_verses ! 0)) (initial_frame example_definitions) =
     Inr (snd (example_verses_after ! 0),
          \<lparr>strongs_definitions = example_definitions, updated_count = 1, not_found_count = 1,
           missing_strongs = {HStr ''G9999''}\<rparr>) \<and>
   strongs_definitions
     \<lparr>strongs_definitions = example_definitions, updated_count = 1, not_found_count = 1,
      missing_strongs = {HStr ''G9999''}\<rparr> =
     strongs_definitions (initial_frame example_definitions)"
proof -
  have run: "merge_run example_verses example_definitions =
     Inr (example_verses_after,
          \<lparr>strongs_definitions = example_definitions, updated_count = 1, not_found_count = 1,
           missing_strongs = {HStr ''G9999''}\<rparr>)"
    by (simp add: merge_run_def initial_frame_def process_verse_def process_token_def
        example_verses_def example_definitions_def example_verses_after_def)
  have tok: "process_token (JObj [(''strongs'', JStr ''G26''), (''strong_def'', JStr [])])
      (initial_frame example_definitions) =
     Inr (JObj [(''strongs'', JStr ''G26''), (''strong_def'', JStr ''love'')],
          \<lparr>strongs_definitions = example_definitions, updated_count = 1, not_found_count = 0,
           missing_strongs = {}\<rparr>)"
    by (simp add: process_token_def initial_frame_def example_definitions_def)
  have verse: "process_verse (snd (example_verses ! 0)) (initial_frame example_definitions) =
     Inr (snd (example_verses_after ! 0),
          \<lparr>strongs_definitions = example_definitions, updated_count = 1, not_found_count = 1,
           missing_strongs = {HStr ''G9999''}\<rparr>)"
    by (simp add: initial_frame_def process_verse_def process_token_def
        example_verses_def example_definitions_def example_verses_after_def)
  from definitions_never_mutated [of example_verses example_definitions example_verses_after
      "\<lparr>strongs_definitions = example_definitions, updated_count = 1, not_found_count = 1,
        missing_strongs = {HStr ''G9999''}\<rparr>"
      "JObj [(''strongs'', JStr ''G26''), (''strong_def'', JStr [])]"
      "initial_frame example_definitions"
      "JObj [(''strongs'', JStr ''G26''), (''strong_def'', JStr ''love'')]"
      "\<lparr>strongs_definitions = example_definitions, updated_count = 1, not_found_count = 0,
        missing_strongs = {}\<rparr>"
      "snd (example_verses ! 0)" "initial_frame example_definitions"
      "snd (example_verses_after ! 0)"
      "\<lparr>strongs_definitions = example_definitions, updated_count = 1, not_found_count = 1,
        missing_strongs = {HStr ''G9999''}\<rparr>"] run tok verse
  show ?thesis by blast
qed

text \<open>
  C7. The result of a run is a function of the two documents. Visiting in another
  order changes nothing: when a run returns, the run on the collection with the tokens
  of its verse records permuted, and the run on any permutation of the entries of that
  collection, return too, with the same updated count, not-found count and missing
  set, and with collections that are the first result permuted in the same way.
\<close>

theorem order_does_not_matter:
  assumes "update_strong_definitions verses defs = Inr (verses', u, n, m)"
    and "entries_reordered verses ws"
    and "mset verses2 = mset ws"
  shows "\<exists>ws' verses2'.
           update_strong_definitions ws defs = Inr (ws', u, n, m) \<and>
           update_strong_definitions verses2 defs = Inr (verses2', u, n, m) \<and>
           entries_reordered verses' ws' \<and> mset verses2' = mset ws'"
proof -
  from assms(1) have ok: "verses_ok defs verses" and new: "verses' = verses_new defs verses"
    and u: "u = sum_du defs (all_tokens verses)" and n: "n = sum_dn defs (all_tokens verses)"
    and m: "m = all_dm defs (all_tokens verses)"
    by (simp_all add: update_strong_definitions_Inr_iff)
  note ws = entries_reordered_run [OF assms(2)]
  note v2 = mset_verses_run [OF assms(3)]
  from ws(1) ok have ok_ws: "verses_ok defs ws" .
  with v2(1) have ok_v2: "verses_ok defs verses2" .
  from sums_mset [OF ws(3), of defs] u n m ok_ws
  have run_ws: "update_strong_definitions ws defs = Inr (verses_new defs ws, u, n, m)"
    by (simp add: update_strong_definitions_Inr_iff)
  from v2(3) ws(3) have "mset (all_tokens verses2) = mset (all_tokens verses)" by simp
  from sums_mset [OF this, of defs] u n m ok_v2
  have run_v2: "update_strong_definitions verses2 defs = Inr (verses_new defs verses2, u, n, m)"
    by (simp add: update_strong_definitions_Inr_iff)
  from run_ws run_v2 ws(2) v2(2) show ?thesis unfolding new by blast
qed

theorem order_does_not_matter_witness:
  "update_strong_definitions two_verses example_definitions =
     Inr (two_verses_after, 2, 1, {HStr ''G9999''}) \<and>
   entries_reordered two_verses two_verses_tokens_swapped \<and>
   mset two_verses_swapped = mset two_verses_tokens_swapped \<and>
   update_strong_definitions two_verses_tokens_swapped example_definitions =
     Inr (two_verses_tokens_swapped_after, 2, 1, {HStr ''G9999''}) \<and>
   update_strong_definitions two_verses_swapped example_definitions =
     Inr (two_verses_swapped_after, 2, 1, {HStr ''G9999''}) \<and>
   entries_reordered two_verses_after two_verses_tokens_swapped_after \<and>
   mset two_verses_swapped_after = mset two_verses_tokens_swapped_after"
proof -
  from order_does_not_matter [OF two_verses_run two_verses_entries two_verses_mset]
  obtain ws' verses2' where
    ws: "update_strong_definitions two_verses_tokens_swapped example_definitions =
      Inr (ws', 2, 1, {HStr ''G9999''})"
    and v2: "update_strong_definitions two_verses_swapped example_definitions =
      Inr (verses2', 2, 1, {HStr ''G9999''})"
    and rel: "entries_reordered two_verses_after ws'" and ms: "mset verses2' = mset ws'"
    by blast
  have "update_strong_definitions two_verses_tokens_swapped example_definitions =
      Inr (two_verses_tokens_swapped_after, 2, 1, {HStr ''G9999''})"
    by (simp add: run_defs two_verses_tokens_swapped_def two_verses_tokens_swapped_after_def
        example_definitions_def insert_commute)
  with ws have ws': "ws' = two_verses_tokens_swapped_after" by simp
  have "update_strong_definitions two_verses_swapped example_definitions =
      Inr (two_verses_swapped_after, 2, 1, {HStr ''G9999''})"
    by (simp add: run_defs two_verses_swapped_def two_verses_swapped_after_def
        example_definitions_def insert_commute)
  with v2 have v2': "verses2' = two_verses_swapped_after" by simp
  from ws v2 rel ms two_verses_run two_verses_entries two_verses_mset show ?thesis
    unfolding ws' v2' by blast
qed

text \<open>
  C8. On the definitions \<^verbatim>\<open>{"G26": "love", "G5547": "Christ"}\<close> and the one verse
  \<^verbatim>\<open>John 3:16\<close> with the tokens \<^verbatim>\<open>{"strongs": "G26", "strong_def": ""}\<close> and
  \<^verbatim>\<open>{"strongs": "G9999"}\<close>, the merge sets the first token's \<^verbatim>\<open>strong_def\<close> to
  \<^verbatim>\<open>"love"\<close>, leaves the second token as it was, and returns one update, one key not
  found and the missing set \<^verbatim>\<open>{"G9999"}\<close>.
\<close>

theorem example_end_to_end:
  "update_strong_definitions
     [(''John 3:16'',
       JObj [(''tokens'',
              JArr [JObj [(''strongs'', JStr ''G26''), (''strong_def'', JStr [])],
                    JObj [(''strongs'', JStr ''G9999'')]])])]
     [(''G26'', JStr ''love''), (''G5547'', JStr ''Christ'')] =
   Inr ([(''John 3:16'',
          JObj [(''tokens'',
                 JArr [JObj [(''strongs'', JStr ''G26''), (''strong_def'', JStr ''love'')],
                       JObj [(''strongs'', JStr ''G9999'')]])])],
        1, 1, {HStr ''G9999''})"
  by (simp add: update_strong_definitions_def merge_run_def initial_frame_def
      process_verse_def process_token_def)

text \<open>
  C9. When the definition found for a token equals (Python's \<^verbatim>\<open>==\<close>) the token's
  \<^verbatim>\<open>strong_def\<close> read with default \<^verbatim>\<open>''\<close>, the token is what it was before after a run
  that returns, and the loop body on it returns the token and the frame it was given:
  no \<^verbatim>\<open>strong_def\<close> key is created and the updated count does not move.
\<close>

theorem equal_definition_is_noop:
  assumes "update_strong_definitions verses defs = Inr (verses', u, n, m)"
    and "i < length verses"
    and "j < length (verse_tokens (snd (verses ! i)))"
    and "py_get (verse_tokens (snd (verses ! i)) ! j) ''strongs'' JNull = Inr sn"
    and "py_truthy sn"
    and "py_hash sn = Inr k"
    and "dict_lookup defs k = Some new_def"
    and "py_get (verse_tokens (snd (verses ! i)) ! j) ''strong_def'' (JStr []) = Inr old_def"
    and "py_eq old_def new_def"
  shows "verse_tokens (snd (verses' ! i)) ! j = verse_tokens (snd (verses ! i)) ! j \<and>
         (\<forall>fr. process_token (verse_tokens (snd (verses ! i)) ! j)
                  (fr\<lparr>strongs_definitions := defs\<rparr>) =
                 Inr (verse_tokens (snd (verses ! i)) ! j, fr\<lparr>strongs_definitions := defs\<rparr>))"
  using run_token(1) [OF assms(1-3)] tok_equal [OF assms(4-9)] by simp

theorem equal_definition_is_noop_witness:
  "update_strong_definitions bare_verses empty_definitions = Inr (bare_verses, 0, 0, {}) \<and>
   (0::nat) < length bare_verses \<and>
   (0::nat) < length (verse_tokens (snd (bare_verses ! 0))) \<and>
   py_get (verse_tokens (snd (bare_verses ! 0)) ! 0) ''strongs'' JNull = Inr (JStr ''G1'') \<and>
   py_truthy (JStr ''G1'') \<and>
   py_hash (JStr ''G1'') = Inr (HStr ''G1'') \<and>
   dict_lookup empty_definitions (HStr ''G1'') = Some (JStr []) \<and>
   py_get (verse_tokens (snd (bare_verses ! 0)) ! 0) ''strong_def'' (JStr []) = Inr (JStr []) \<and>
   py_eq (JStr []) (JStr []) \<and>
   verse_tokens (snd (bare_verses ! 0)) ! 0 = JObj [(''strongs'', JStr ''G1'')] \<and>
   (\<forall>fr. process_token (verse_tokens (snd (bare_verses ! 0)) ! 0)
            (fr\<lparr>strongs_definitions := empty_definitions\<rparr>) =
           Inr (verse_tokens (snd (bare_verses ! 0)) ! 0,
                fr\<lparr>strongs_definitions := empty_definitions\<rparr>))"
proof -
  note run = bare_run
  have i: "(0::nat) < length bare_verses" by (simp add: bare_verses_def)
  have j: "(0::nat) < length (verse_tokens (snd (bare_verses ! 0)))"
    by (simp add: bare_verses_def)
  have tok: "verse_tokens (snd (bare_verses ! 0)) ! 0 = JObj [(''strongs'', JStr ''G1'')]"
    by (simp add: bare_verses_def)
  have s: "py_get (verse_tokens (snd (bare_verses ! 0)) ! 0) ''strongs'' JNull =
      Inr (JStr ''G1'')"
    by (simp add: tok)
  have t: "py_truthy (JStr ''G1'')" by simp
  have h: "py_hash (JStr ''G1'') = Inr (HStr ''G1'')" by simp
  have d: "dict_lookup empty_definitions (HStr ''G1'') = Some (JStr [])"
    by (simp add: empty_definitions_def)
  have old: "py_get (verse_tokens (snd (bare_verses ! 0)) ! 0) ''strong_def'' (JStr []) =
      Inr (JStr [])"
    by (simp add: tok)
  have eq: "py_eq (JStr []) (JStr [])" by simp
  from equal_definition_is_noop [OF run i j s t h d old eq] run i j s t h d old eq tok
  show ?thesis by blast
qed

text \<open>
  C10. In a run that returns, the two counts together are at most the number of tokens
  of all verse records and the missing set has at most as many keys as the not-found
  count; one step of the loop body adds nothing, or one to the updated count, or one to
  the not-found count, never to both.
\<close>

theorem counters_bounded:
  "(update_strong_definitions verses defs = Inr (verses', u, n, m) \<longrightarrow>
      u + n \<le> length (all_tokens verses) \<and> finite m \<and> card m \<le> n) \<and>
   (process_token tok fr = Inr (tok', fr') \<longrightarrow>
      (updated_count fr' = updated_count fr \<and> not_found_count fr' = not_found_count fr) \<or>
      (updated_count fr' = updated_count fr + 1 \<and> not_found_count fr' = not_found_count fr) \<or>
      (updated_count fr' = updated_count fr \<and> not_found_count fr' = not_found_count fr + 1))"
  using sum_du_dn_le [of defs "all_tokens verses"] card_all_dm [of defs "all_tokens verses"]
    process_token_step(2) [of tok fr tok' fr']
  by (simp add: update_strong_definitions_Inr_iff)

theorem counters_bounded_witness:
  "update_strong_definitions example_verses example_definitions =
     Inr (example_verses_after, 1, 1, {HStr ''G9999''}) \<and>
   (1::nat) + 1 \<le> length (all_tokens example_verses) \<and>
   finite {HStr ''G9999''} \<and> card {HStr ''G9999''} \<le> (1::nat) \<and>
   process_token (JObj [(''strongs'', JStr ''G9999'')]) (initial_frame example_definitions) =
     Inr (JObj [(''strongs'', JStr ''G9999'')],
          \<lparr>strongs_definitions = example_definitions, updated_count = 0, not_found_count = 1,
           missing_strongs = {HStr ''G9999''}\<rparr>) \<and>
   ((updated_count \<lparr>strongs_definitions = example_definitions, updated_count = 0,
        not_found_count = 1, missing_strongs = {HStr ''G9999''}\<rparr> =
      updated_count (initial_frame example_definitions) \<and>
     not_found_count \<lparr>strongs_definitions = example_definitions, updated_count = 0,
        not_found_count = 1, missing_strongs = {HStr ''G9999''}\<rparr> =
      not_found_count (initial_frame example_definitions)) \<or>
    (updated_count \<lparr>strongs_definitions = example_definitions, updated_count = 0,
        not_found_count = 1, missing_strongs = {HStr ''G9999''}\<rparr> =
      updated_count (initial_frame example_definitions) + 1 \<and>
     not_found_count \<lparr>strongs_definitions = example_definitions, updated_count = 0,
        not_found_count = 1, missing_strongs = {HStr ''G9999''}\<rparr> =
      not_found_count (initial_frame example_definitions)) \<or>
    (updated_count \<lparr>strongs_definitions = example_definitions, updated_count = 0,
        not_found_count = 1, missing_strongs = {HStr ''G9999''}\<rparr> =
      updated_count (initial_frame example_definitions) \<and>
     not_found_count \<lparr>strongs_definitions = example_definitions, updated_count = 0,
        not_found_count = 1, missing_strongs = {HStr ''G9999''}\<rparr> =
      not_found_count (initial_frame example_definitions) + 1)) \<and>
   length (all_tokens example_verses) = 2"
proof -
  note run = example_run
  have step: "process_token (JObj [(''strongs'', JStr ''G9999'')])
      (initial_frame example_definitions) =
     Inr (JObj [(''strongs'', JStr ''G9999'')],
          \<lparr>strongs_definitions = example_definitions, updated_count = 0, not_found_count = 1,
           missing_strongs = {HStr ''G9999''}\<rparr>)"
    by (simp add: process_token_def initial_frame_def example_definitions_def)
  have len: "length (all_tokens example_verses) = 2" by (simp add: example_verses_def)
  from counters_bounded [of example_verses example_definitions example_verses_after 1 1
      "{HStr ''G9999''}" "JObj [(''strongs'', JStr ''G9999'')]"
      "initial_frame example_definitions" "JObj [(''strongs'', JStr ''G9999'')]"
      "\<lparr>strongs_definitions = example_definitions, updated_count = 0, not_found_count = 1,
        missing_strongs = {HStr ''G9999''}\<rparr>"] run step len
  show ?thesis by blast
qed

end
